theory Spec2Isabelle
  imports Complex_Main
begin

section \<open>Data model\<close>

text \<open>
  The program (\<^verbatim>\<open>src/index.ts\<close>) annotates the fixes of a parsed IGC flight log with the
  ground elevation under every fix and with a running cross-country score. Two earlier
  variants of the program are in the repository: one without the scoring, whose
  \<^verbatim>\<open>getGroundElevations\<close> is the same loop, over track points it parses itself, and one
  that only runs the solver once over the whole log.

  JavaScript numbers are modelled by \<^typ>\<open>real\<close>: the value of a finite double, without
  rounding of arithmetic results. An array is a list, \<^verbatim>\<open>undefined\<close> read from an array is
  \<open>None\<close>. What the program writes to the console is left out.
\<close>

text \<open>One B record of the parsed log (\<^verbatim>\<open>IGCParser.BRecord\<close>), with the fields the program reads.\<close>

record BRecord =
  time :: string
  timestamp :: real
  latitude :: real
  longitude :: real
  gpsAltitude :: real

text \<open>The parsed log (\<^verbatim>\<open>IGCParser.IGCFile\<close>); the field \<^verbatim>\<open>fixes\<close> is \<open>igc_fixes\<close> here.\<close>

record IGCFile =
  date :: string
  igc_fixes :: "BRecord list"

record ElevationDataRowLocation =
  lat :: real
  lng :: real

record ElevationDataRow =
  dataset :: string
  elevation :: real
  location :: ElevationDataRowLocation

record ElevationData =
  results :: "ElevationDataRow list"
  status :: string

text \<open>
  The result of a division, which need not be finite: dividing by zero gives an infinity
  or not-a-number.
\<close>

datatype number = Finite real | PosInfinity | NegInfinity | NaN

text \<open>
  One output row. Its field \<^verbatim>\<open>time\<close> is \<open>row_time\<close> here; \<open>groundElev\<close> is \<open>None\<close> when
  the row read \<^verbatim>\<open>elevations[i + j]\<close> past the end of the array.
\<close>

record TargetData =
  row_time :: string
  gpsAlt :: real
  groundElev :: "real option"
  xc :: string
  avgSpeed :: number

text \<open>
  An HTTP response of the elevation server: its status code and its body, \<open>None\<close> when the
  body is not the JSON of an \<^typ>\<open>ElevationData\<close> (then \<^verbatim>\<open>response.json()\<close> or the
  field accesses on its value throw).
\<close>

record Response =
  http_status :: nat
  body :: "ElevationData option"

text \<open>\<^verbatim>\<open>response.ok\<close>: the status code is in the range 200 to 299.\<close>

definition ok :: "Response \<Rightarrow> bool" where
  "ok response \<longleftrightarrow> 200 \<le> http_status response \<and> http_status response < 300"

text \<open>
  One candidate of the route solver (\<^verbatim>\<open>xcs.Solution\<close>): \<^verbatim>\<open>optimal\<close> (absent counts as
  false, as \<^verbatim>\<open>next.optimal || false\<close> reads it), \<^verbatim>\<open>scoreInfo\<close> (may be absent) and
  \<^verbatim>\<open>opt.scoring.code\<close>. A penalty of \<open>None\<close> is an absent or not-a-number penalty.
\<close>

record ScoreInfo =
  distance :: real
  penalty :: "real option"

record Solution =
  optimal :: bool
  scoreInfo :: "ScoreInfo option"
  scoring_code :: string

text \<open>
  What the program can throw: the error of \<^verbatim>\<open>getGroundElevations\<close> on a status outside
  200 to 299, a body that is not the expected JSON, a property read on \<^verbatim>\<open>undefined\<close>, a
  path that does not resolve, and a log that the parser rejects.
\<close>

datatype error =
    ServerReplies nat
  | SyntaxError
  | TypeError
  | ENOENT
  | ParseError

section \<open>Built-in operations of the language\<close>

text \<open>\<^verbatim>\<open>Array.prototype.slice(start, end)\<close> for \<open>0 \<le> start \<le> end\<close>.\<close>

definition slice :: "'a list \<Rightarrow> nat \<Rightarrow> nat \<Rightarrow> 'a list" where
  "slice xs start end = take (end - start) (drop start xs)"

text \<open>\<^verbatim>\<open>Array.prototype.join(sep)\<close> on an array of strings.\<close>

fun join :: "string \<Rightarrow> string list \<Rightarrow> string" where
  "join sep [] = []"
| "join sep [x] = x"
| "join sep (x # y # ys) = x @ sep @ join sep (y # ys)"

text \<open>\<^verbatim>\<open>String.prototype.startsWith\<close>.\<close>

definition startsWith :: "string \<Rightarrow> string \<Rightarrow> bool" where
  "startsWith s p \<longleftrightarrow> take (length p) s = p"

definition digit_char :: "nat \<Rightarrow> char" where
  "digit_char d = ''0123456789'' ! d"

text \<open>The decimal digits of a natural number, most significant first.\<close>

fun nat_to_string :: "nat \<Rightarrow> string" where
  "nat_to_string n =
     (if n < 10 then [digit_char n] else nat_to_string (n div 10) @ [digit_char (n mod 10)])"

declare nat_to_string.simps [simp del]

text \<open>
  \<^verbatim>\<open>Number.prototype.toFixed(f)\<close> as ECMAScript defines it, for a finite number below
  \<open>10^21\<close> in magnitude: the sign, then the integer \<open>n\<close> nearest to \<open>x * 10^f\<close> (the larger
  one of two), padded with zeros to \<open>f + 1\<close> digits, with a point before the last \<open>f\<close>.
\<close>

definition toFixed :: "nat \<Rightarrow> real \<Rightarrow> string" where
  "toFixed f x0 =
     (let s = (if x0 < 0 then ''-'' else []);
          x = (if x0 < 0 then - x0 else x0);
          n = nat \<lfloor>x * 10 ^ f + 1 / 2\<rfloor>;
          m = nat_to_string n;
          k = length m;
          z = (if k \<le> f then replicate (f + 1 - k) (CHR ''0'') else []);
          m' = z @ m;
          k' = (if k \<le> f then f + 1 else k)
      in if f \<noteq> 0 then s @ take (k' - f) m' @ ''.'' @ drop (k' - f) m' else s @ m)"

text \<open>The quotient \<^verbatim>\<open>x / y\<close> of two finite numbers, \<open>y\<close> zero or not (a zero divisor here is \<open>+0\<close>).\<close>

definition divide_number :: "real \<Rightarrow> real \<Rightarrow> number" where
  "divide_number x y =
     (if y \<noteq> 0 then Finite (x / y)
      else if 0 < x then PosInfinity
      else if x < 0 then NegInfinity
      else NaN)"

fun toFixed_number :: "nat \<Rightarrow> number \<Rightarrow> string" where
  "toFixed_number f (Finite x) = toFixed f x"
| "toFixed_number f PosInfinity = ''Infinity''"
| "toFixed_number f NegInfinity = ''-Infinity''"
| "toFixed_number f NaN = ''NaN''"

section \<open>Elevation lookup\<close>

definition ELEVATION_CHUNK_SIZE :: nat where
  "ELEVATION_CHUNK_SIZE = 100"

text \<open>The query of one batch: \<^verbatim>\<open>chunk.map(t => `${lat.toFixed(5)}, ${lon.toFixed(5)}`).join('|')\<close>.\<close>

definition locations_of :: "BRecord list \<Rightarrow> string" where
  "locations_of chunk =
     join ''|'' (map (\<lambda>t. toFixed 5 (latitude t) @ '', '' @ toFixed 5 (longitude t)) chunk)"

definition request_url :: "string \<Rightarrow> BRecord list \<Rightarrow> string" where
  "request_url server chunk = server @ ''?locations='' @ locations_of chunk"

text \<open>
  The loop of \<^verbatim>\<open>getGroundElevations\<close>. The server is a function \<open>fetch\<close>: the response to a
  request depends on how many requests came before it and on its URL. \<open>reqs\<close> is the list
  of the URLs requested so far, kept to count the requests; the function returns it with
  the result.
\<close>

function getGroundElevations_loop ::
  "(nat \<Rightarrow> string \<Rightarrow> Response) \<Rightarrow> string \<Rightarrow> BRecord list \<Rightarrow> nat \<Rightarrow> real list \<Rightarrow> string list
    \<Rightarrow> (error + real list) \<times> string list" where
  "getGroundElevations_loop fetch server fxs i result reqs =
     (if i < length fxs then
        (let chunk = slice fxs i (i + ELEVATION_CHUNK_SIZE);
             url = request_url server chunk;
             response = fetch (length reqs) url;
             reqs' = reqs @ [url]
         in if ok response then
              (case body response of
                 None \<Rightarrow> (Inl SyntaxError, reqs')
               | Some data \<Rightarrow>
                   if startsWith (status data) ''OK''
                   then getGroundElevations_loop fetch server fxs (i + ELEVATION_CHUNK_SIZE)
                          (result @ map elevation (results data)) reqs'
                   else getGroundElevations_loop fetch server fxs (i + ELEVATION_CHUNK_SIZE)
                          result reqs')
            else (Inl (ServerReplies (http_status response)), reqs'))
      else (Inr result, reqs))"
  by pat_completeness auto
termination
  by (relation "measure (\<lambda>(fetch, server, fxs, i, result, reqs). length fxs - i)")
     (auto simp: ELEVATION_CHUNK_SIZE_def)

declare getGroundElevations_loop.simps [simp del]

definition getGroundElevations ::
  "(nat \<Rightarrow> string \<Rightarrow> Response) \<Rightarrow> string \<Rightarrow> IGCFile \<Rightarrow> (error + real list) \<times> string list" where
  "getGroundElevations fetch server igc = getGroundElevations_loop fetch server (igc_fixes igc) 0 [] []"

section \<open>Progressive scoring\<close>

definition CHUNK_SIZE :: nat where
  "CHUNK_SIZE = 60"

definition getRouteType :: "string \<Rightarrow> string option" where
  "getRouteType scoringCode =
     (if scoringCode = ''fai'' then Some ''FAI''
      else if scoringCode = ''tri'' then Some ''flat''
      else None)"

text \<open>\<^verbatim>\<open>.filter(Boolean)\<close> on an array of strings and \<^verbatim>\<open>undefined\<close>: both \<^verbatim>\<open>undefined\<close> and the empty string go.\<close>

fun filter_Boolean :: "string option list \<Rightarrow> string list" where
  "filter_Boolean [] = []"
| "filter_Boolean (None # xs) = filter_Boolean xs"
| "filter_Boolean (Some s # xs) = (if s = [] then filter_Boolean xs else s # filter_Boolean xs)"

text \<open>The text of the \<^verbatim>\<open>xc\<close> column: the route label, the net distance without decimals, and the unit.\<close>

definition xc_text :: "Solution \<Rightarrow> ScoreInfo \<Rightarrow> string" where
  "xc_text next info =
     join '' ''
       (filter_Boolean
          [getRouteType (scoring_code next),
           Some (toFixed 0
             (distance info -
                (if penalty info = None \<or> penalty info = Some 0 then 0 else the (penalty info)))),
           Some ''km''])"

text \<open>
  The \<^verbatim>\<open>do ... while (!solved)\<close> loop. \<open>candidates k\<close> is the value of the \<open>k\<close>-th call of
  \<^verbatim>\<open>solver.next()\<close>, \<open>None\<close> once the generator has nothing left (\<^verbatim>\<open>next.optimal\<close> then throws).
  The loop need not end: not returning is the value \<open>None\<close> of the function.
\<close>

partial_function (option) solve_loop ::
  "(nat \<Rightarrow> Solution option) \<Rightarrow> nat \<Rightarrow> real \<Rightarrow> real \<Rightarrow> (error + string \<times> number) option" where
  "solve_loop candidates k lastTimestamp firstTimestamp =
     (case candidates k of
        None \<Rightarrow> Some (Inl TypeError)
      | Some next \<Rightarrow>
          if optimal next then
            (case scoreInfo next of
               None \<Rightarrow> Some (Inl TypeError)
             | Some info \<Rightarrow>
                 Some (Inr (xc_text next info,
                            divide_number (distance info)
                              ((lastTimestamp - firstTimestamp) / 3600000))))
          else solve_loop candidates (k + 1) lastTimestamp firstTimestamp)"

text \<open>\<^verbatim>\<open>elevations[n]\<close>: \<^verbatim>\<open>undefined\<close> past the end.\<close>

definition index_opt :: "'a list \<Rightarrow> nat \<Rightarrow> 'a option" where
  "index_opt xs n = (if n < length xs then Some (xs ! n) else None)"

text \<open>The rows that \<^verbatim>\<open>chunk.forEach((fix, j) => processedData.push(...))\<close> appends.\<close>

definition chunk_rows :: "real list \<Rightarrow> nat \<Rightarrow> string \<Rightarrow> number \<Rightarrow> BRecord list \<Rightarrow> TargetData list" where
  "chunk_rows elevations i xc_value avgSpeed_value chunk =
     map (\<lambda>(j, fix).
            \<lparr>row_time = time fix, gpsAlt = gpsAltitude fix,
             groundElev = index_opt elevations (i + j),
             xc = xc_value, avgSpeed = avgSpeed_value\<rparr>)
         (enumerate 0 chunk)"

text \<open>
  The \<^verbatim>\<open>for\<close> loop of \<^verbatim>\<open>processData\<close>. \<open>fxs\<close> is the array \<^verbatim>\<open>fixes\<close> saved before the
  loop, \<open>igc\<close> the log object whose \<^verbatim>\<open>fixes\<close> the loop extends, \<open>calls\<close> the logs the solver
  has been created on so far. The function returns the result with the final log object
  and the solver calls.
\<close>

function processData_loop ::
  "(IGCFile \<Rightarrow> nat \<Rightarrow> Solution option) \<Rightarrow> real list \<Rightarrow> BRecord list \<Rightarrow> real \<Rightarrow> nat \<Rightarrow> IGCFile
    \<Rightarrow> TargetData list \<Rightarrow> IGCFile list
    \<Rightarrow> ((error + TargetData list) \<times> IGCFile \<times> IGCFile list) option" where
  "processData_loop solver elevations fxs firstTimestamp i igc processedData calls =
     (if i < length fxs then
        (let chunk = slice fxs i (i + CHUNK_SIZE);
             igc' = igc\<lparr>igc_fixes := igc_fixes igc @ chunk\<rparr>;
             calls' = calls @ [igc']
         in case solve_loop (solver igc') 0 (timestamp (chunk ! (length chunk - 1))) firstTimestamp of
              None \<Rightarrow> None
            | Some (Inl e) \<Rightarrow> Some (Inl e, igc', calls')
            | Some (Inr (xc_value, avgSpeed_value)) \<Rightarrow>
                processData_loop solver elevations fxs firstTimestamp (i + CHUNK_SIZE) igc'
                  (processedData @ chunk_rows elevations i xc_value avgSpeed_value chunk) calls')
      else Some (Inr processedData, igc, calls))"
  by pat_completeness auto
termination
  by (relation "measure (\<lambda>(solver, elevations, fxs, firstTimestamp, i, igc, processedData, calls).
        length fxs - i)")
     (auto simp: CHUNK_SIZE_def)

declare processData_loop.simps [simp del]

text \<open>
  What a call of \<^verbatim>\<open>processData\<close> leaves behind: the value returned or the error thrown, the
  log object after the call, the URLs requested from the elevation server and the logs
  the solver was created on, in order.
\<close>

record Outcome =
  returned :: "error + TargetData list"
  igc_after :: IGCFile
  requests :: "string list"
  solver_inputs :: "IGCFile list"

definition processData ::
  "(nat \<Rightarrow> string \<Rightarrow> Response) \<Rightarrow> (IGCFile \<Rightarrow> nat \<Rightarrow> Solution option) \<Rightarrow> string \<Rightarrow> IGCFile
    \<Rightarrow> Outcome option" where
  "processData fetch solver elevationServer igc =
     (case getGroundElevations fetch elevationServer igc of
        (Inl e, reqs) \<Rightarrow>
          Some \<lparr>returned = Inl e, igc_after = igc, requests = reqs, solver_inputs = []\<rparr>
      | (Inr elevations, reqs) \<Rightarrow>
          (let fxs = igc_fixes igc in
           if length fxs = 0 then
             Some \<lparr>returned = Inr [], igc_after = igc, requests = reqs, solver_inputs = []\<rparr>
           else
             (let firstTimestamp = timestamp (fxs ! 0) in
              case processData_loop solver elevations fxs firstTimestamp 0
                     (igc\<lparr>igc_fixes := []\<rparr>) [] [] of
                None \<Rightarrow> None
              | Some (r, igc', calls) \<Rightarrow>
                  Some \<lparr>returned = r, igc_after = igc', requests = reqs,
                        solver_inputs = calls\<rparr>)))"

section \<open>Writing the output file\<close>

text \<open>
  The rows of \<^verbatim>\<open>writeProcessedFile\<close>, appended to the content of the open file one
  \<^verbatim>\<open>file.write\<close> at a time. \<^verbatim>\<open>groundElev.toFixed(0)\<close> throws on \<^verbatim>\<open>undefined\<close>, and the file keeps
  what was written before. \<open>number_to_string\<close> is the conversion of a number in a template
  literal.
\<close>

fun write_rows :: "(real \<Rightarrow> string) \<Rightarrow> string \<Rightarrow> TargetData list \<Rightarrow> string \<Rightarrow> (error + unit) \<times> string" where
  "write_rows number_to_string flightDate [] content = (Inr (), content)"
| "write_rows number_to_string flightDate (row # rows) content =
     (case groundElev row of
        None \<Rightarrow> (Inl TypeError, content)
      | Some elev \<Rightarrow>
          write_rows number_to_string flightDate rows
            (content @ flightDate @ ''T'' @ row_time row @ ''Z,'' @ number_to_string (gpsAlt row)
               @ '','' @ toFixed 0 elev @ '','' @ toFixed 0 (gpsAlt row - elev) @ '','' @ xc row
               @ '','' @ toFixed_number 1 (avgSpeed row) @ [CHR 0x0A]))"

text \<open>The file system is a map from paths to contents; opening with \<^verbatim>\<open>'w'\<close> creates or empties the file.\<close>

definition writeProcessedFile ::
  "(real \<Rightarrow> string) \<Rightarrow> string \<Rightarrow> string \<Rightarrow> TargetData list \<Rightarrow> (string \<rightharpoonup> string)
    \<Rightarrow> (error + unit) \<times> (string \<rightharpoonup> string)" where
  "writeProcessedFile number_to_string filePath flightDate processedData files =
     (case write_rows number_to_string flightDate processedData
             (''date,altitude(m),ground alt(m),agl(m),xc(km),avg speed(km/h)'' @ [CHR 0x0A]) of
        (r, content) \<Rightarrow> (r, files(filePath \<mapsto> content)))"

section \<open>The command\<close>

text \<open>
  What \<^verbatim>\<open>run\<close> takes from outside the repository: the elevation server, the solver of
  \<^verbatim>\<open>igc-xc-score\<close>, \<^verbatim>\<open>fsp.realpath\<close> (\<open>None\<close> when it rejects), \<^verbatim>\<open>IGCParser.parse\<close> (\<open>None\<close>
  when it throws), the path of the output file computed by \<^verbatim>\<open>path.format\<close>, and the
  conversion of a number to text.
\<close>

record Env =
  env_fetch :: "nat \<Rightarrow> string \<Rightarrow> Response"
  env_solver :: "IGCFile \<Rightarrow> nat \<Rightarrow> Solution option"
  env_realpath :: "string \<Rightarrow> string option"
  env_parse :: "string \<Rightarrow> IGCFile option"
  env_csv_path :: "string \<Rightarrow> string"
  env_number_to_string :: "real \<Rightarrow> string"

definition ELEVATION_SERVER_URL :: string where
  "ELEVATION_SERVER_URL = ''http://localhost:19993/v1/eudem25m''"

text \<open>
  \<^verbatim>\<open>run\<close>, from the path given on the command line and the file system to the outcome and
  the file system afterwards; \<open>None\<close> when the solver loop does not end.
\<close>

definition run ::
  "Env \<Rightarrow> string \<Rightarrow> (string \<rightharpoonup> string) \<Rightarrow> ((error + unit) \<times> (string \<rightharpoonup> string)) option" where
  "run env inputPath files =
     (if inputPath = [] then Some (Inr (), files)
      else
        (case env_realpath env inputPath of
           None \<Rightarrow> Some (Inl ENOENT, files)
         | Some sourceIgc \<Rightarrow>
             (case files sourceIgc of
                None \<Rightarrow> Some (Inr (), files)
              | Some igcString \<Rightarrow>
                  (case env_parse env igcString of
                     None \<Rightarrow> Some (Inl ParseError, files)
                   | Some igc \<Rightarrow>
                       (case processData (env_fetch env) (env_solver env) ELEVATION_SERVER_URL igc of
                          None \<Rightarrow> None
                        | Some out \<Rightarrow>
                            (case returned out of
                               Inl e \<Rightarrow> Some (Inl e, files)
                             | Inr processedData \<Rightarrow>
                                 Some (writeProcessedFile (env_number_to_string env)
                                         (env_csv_path env sourceIgc) (date (igc_after out))
                                         processedData files)))))))"

section \<open>Notions of the specification\<close>

text \<open>The number of batches of a lookup over \<open>N\<close> coordinates: \<open>N / 100\<close> rounded up.\<close>

definition batch_count :: "nat \<Rightarrow> nat" where
  "batch_count N = (N + (ELEVATION_CHUNK_SIZE - 1)) div ELEVATION_CHUNK_SIZE"

text \<open>The \<open>k\<close>-th batch: the coordinates \<open>100 k\<close> to \<open>100 k + 99\<close>, as far as there are any.\<close>

definition batch :: "BRecord list \<Rightarrow> nat \<Rightarrow> BRecord list" where
  "batch fxs k = take ELEVATION_CHUNK_SIZE (drop (k * ELEVATION_CHUNK_SIZE) fxs)"

text \<open>The response of the server to the request for the \<open>k\<close>-th batch, sent as the \<open>k\<close>-th request.\<close>

definition response_to :: "(nat \<Rightarrow> string \<Rightarrow> Response) \<Rightarrow> string \<Rightarrow> BRecord list \<Rightarrow> nat \<Rightarrow> Response" where
  "response_to fetch server fxs k = fetch k (request_url server (batch fxs k))"

text \<open>A response the lookup reads without throwing: status 200 to 299 and a JSON body.\<close>

definition readable :: "Response \<Rightarrow> bool" where
  "readable r \<longleftrightarrow> ok r \<and> body r \<noteq> None"

text \<open>A response that reports success: readable, with a status field that starts with OK.\<close>

definition reports_success :: "Response \<Rightarrow> bool" where
  "reports_success r \<longleftrightarrow>
     ok r \<and> (case body r of None \<Rightarrow> False | Some data \<Rightarrow> startsWith (status data) ''OK'')"

text \<open>The elevations a readable response carries.\<close>

definition elevations_in :: "Response \<Rightarrow> real list" where
  "elevations_in r = (case body r of None \<Rightarrow> [] | Some data \<Rightarrow> map elevation (results data))"

text \<open>What a readable response adds to the result of the lookup.\<close>

definition contribution :: "Response \<Rightarrow> real list" where
  "contribution r = (if reports_success r then elevations_in r else [])"

text \<open>The result of a lookup whose responses are all readable: their contributions, in order.\<close>

definition lookup_result :: "(nat \<Rightarrow> string \<Rightarrow> Response) \<Rightarrow> string \<Rightarrow> BRecord list \<Rightarrow> real list" where
  "lookup_result fetch server fxs =
     concat (map (\<lambda>k. contribution (response_to fetch server fxs k)) [0..<batch_count (length fxs)])"

text \<open>The URLs of the first \<open>m\<close> requests of a lookup.\<close>

definition request_urls :: "string \<Rightarrow> BRecord list \<Rightarrow> nat \<Rightarrow> string list" where
  "request_urls server fxs m = map (\<lambda>k. request_url server (batch fxs k)) [0..<m]"

text \<open>What the lookup throws on a response that is not readable.\<close>

definition error_of :: "Response \<Rightarrow> error" where
  "error_of r = (if ok r then SyntaxError else ServerReplies (http_status r))"

text \<open>The number of scoring iterations over \<open>N\<close> fixes: \<open>N / 60\<close> rounded up.\<close>

definition chunk_count :: "nat \<Rightarrow> nat" where
  "chunk_count N = (N + (CHUNK_SIZE - 1)) div CHUNK_SIZE"

text \<open>The log with the fixes of the chunks \<open>0\<close> to \<open>k\<close> only: the prefix the \<open>k\<close>-th iteration scores.\<close>

definition prefix_log :: "IGCFile \<Rightarrow> nat \<Rightarrow> IGCFile" where
  "prefix_log igc k = igc\<lparr>igc_fixes := take ((k + 1) * CHUNK_SIZE) (igc_fixes igc)\<rparr>"

text \<open>The log as the \<open>k\<close>-th iteration finds it: with the fixes of the chunks before \<open>k\<close>.\<close>

definition state_before :: "IGCFile \<Rightarrow> nat \<Rightarrow> IGCFile" where
  "state_before igc k = igc\<lparr>igc_fixes := take (k * CHUNK_SIZE) (igc_fixes igc)\<rparr>"

text \<open>The \<open>k\<close>-th chunk: the fixes \<open>60 k\<close> to \<open>60 k + 59\<close>, as far as there are any.\<close>

definition chunk_of :: "BRecord list \<Rightarrow> nat \<Rightarrow> BRecord list" where
  "chunk_of fxs k = take CHUNK_SIZE (drop (k * CHUNK_SIZE) fxs)"

text \<open>The index of the last fix of the \<open>k\<close>-th chunk of \<open>N\<close> fixes.\<close>

definition chunk_last :: "nat \<Rightarrow> nat \<Rightarrow> nat" where
  "chunk_last N k = min ((k + 1) * CHUNK_SIZE) N - 1"

text \<open>
  The score of the \<open>k\<close>-th chunk: what the solver loop gives on the prefix that ends with
  the chunk, with the time stamps of the last fix of the chunk and of the first fix of
  the track.
\<close>

definition chunk_score ::
  "(IGCFile \<Rightarrow> nat \<Rightarrow> Solution option) \<Rightarrow> IGCFile \<Rightarrow> nat \<Rightarrow> (error + string \<times> number) option" where
  "chunk_score solver igc k =
     solve_loop (solver (prefix_log igc k)) 0
       (timestamp (igc_fixes igc ! chunk_last (length (igc_fixes igc)) k))
       (timestamp (igc_fixes igc ! 0))"

text \<open>
  \<open>c\<close> is the candidate the solver loop stops at: the first optimal one, every candidate
  before it being there and not optimal.
\<close>

definition first_optimal :: "(nat \<Rightarrow> Solution option) \<Rightarrow> Solution \<Rightarrow> bool" where
  "first_optimal candidates c \<longleftrightarrow>
     (\<exists>k. candidates k = Some c \<and> optimal c \<and>
          (\<forall>j<k. \<exists>c'. candidates j = Some c' \<and> \<not> optimal c'))"

text \<open>The solver ends with an optimal candidate that carries its score, on every prefix.\<close>

definition solver_converges :: "(IGCFile \<Rightarrow> nat \<Rightarrow> Solution option) \<Rightarrow> IGCFile \<Rightarrow> bool" where
  "solver_converges solver igc \<longleftrightarrow>
     (\<forall>k<chunk_count (length (igc_fixes igc)).
        \<exists>c. first_optimal (solver (prefix_log igc k)) c \<and> scoreInfo c \<noteq> None)"

text \<open>
  The average speed as the specification states it: the net distance, the distance less
  the penalty, over the elapsed time \<open>T\<close> (in milliseconds) in hours.
\<close>

definition spec_averageSpeed :: "ScoreInfo \<Rightarrow> real \<Rightarrow> real" where
  "spec_averageSpeed info T =
     (distance info - (case penalty info of None \<Rightarrow> 0 | Some p \<Rightarrow> p)) / (T / 3600000)"

text \<open>The last \<open>f\<close> decimal digits of a natural number, with leading zeros.\<close>

fun fixed_digits :: "nat \<Rightarrow> nat \<Rightarrow> string" where
  "fixed_digits 0 r = []"
| "fixed_digits (Suc f) r = fixed_digits f (r div 10) @ [digit_char (r mod 10)]"

text \<open>
  A number rounded to \<open>f\<close> decimal digits, in decimal notation: with \<open>n\<close> the integer
  nearest to \<open>|x| * 10^f\<close> (the larger one of two), the sign, the digits of \<open>n div 10^f\<close>, a
  point and the \<open>f\<close> digits of \<open>n mod 10^f\<close>.
\<close>

definition rounded :: "nat \<Rightarrow> real \<Rightarrow> string" where
  "rounded f x =
     (if x < 0 then ''-'' else []) @
     nat_to_string (nat \<lfloor>\<bar>x\<bar> * 10 ^ f + 1 / 2\<rfloor> div 10 ^ f) @ ''.'' @
     fixed_digits f (nat \<lfloor>\<bar>x\<bar> * 10 ^ f + 1 / 2\<rfloor> mod 10 ^ f)"

text \<open>
  The query of a batch as the specification states it: the pairs of rounded latitude and
  longitude, a comma and nothing else between the two, joined by a bar.
\<close>

definition spec_locations :: "BRecord list \<Rightarrow> string" where
  "spec_locations chunk =
     join ''|'' (map (\<lambda>t. rounded 5 (latitude t) @ '','' @ rounded 5 (longitude t)) chunk)"

section \<open>Example inputs\<close>

text \<open>A fix at a given time stamp (in milliseconds), and a log of \<open>n\<close> fixes one second apart.\<close>

definition fix_at :: "real \<Rightarrow> BRecord" where
  "fix_at ms =
     \<lparr>time = ''12:00:00'', timestamp = ms, latitude = 47, longitude = 11, gpsAltitude = 1500\<rparr>"

definition example_log :: "nat \<Rightarrow> IGCFile" where
  "example_log n = \<lparr>date = ''2024-06-01'', igc_fixes = map (\<lambda>k. fix_at (1000 * real k)) [0..<n]\<rparr>"

text \<open>A fix at 48 degrees 36.2 minutes north, 11 degrees 20 minutes west.\<close>

definition scenario_fix :: BRecord where
  "scenario_fix =
     \<lparr>time = ''12:00:00'', timestamp = 0, latitude = 48 + 36200 / 60000,
      longitude = - (11 + 20000 / 60000), gpsAltitude = 1500\<rparr>"

text \<open>A log of two fixes one hour apart.\<close>

definition hour_log :: IGCFile where
  "hour_log = \<lparr>date = ''2024-06-01'', igc_fixes = [fix_at 0, fix_at 3600000]\<rparr>"

definition example_row :: ElevationDataRow where
  "example_row = \<lparr>dataset = ''eudem25m'', elevation = 500, location = \<lparr>lat = 47, lng = 11\<rparr>\<rparr>"

text \<open>A response of status 200 with \<open>m\<close> results and the given status field.\<close>

definition response_200 :: "nat \<Rightarrow> string \<Rightarrow> Response" where
  "response_200 m st =
     \<lparr>http_status = 200, body = Some \<lparr>results = replicate m example_row, status = st\<rparr>\<rparr>"

text \<open>A server that answers every request with \<open>m\<close> results and status OK.\<close>

definition fetch_ok :: "nat \<Rightarrow> nat \<Rightarrow> string \<Rightarrow> Response" where
  "fetch_ok m k url = response_200 m ''OK''"

text \<open>A server that answers the request number \<open>bad\<close> with status 500 and no body.\<close>

definition fetch_500_at :: "nat \<Rightarrow> nat \<Rightarrow> string \<Rightarrow> Response" where
  "fetch_500_at bad k url =
     (if k = bad then \<lparr>http_status = 500, body = None\<rparr> else response_200 100 ''OK'')"

text \<open>
  A server that answers the request number \<open>bad\<close> with status 200 and the status field
  \<^verbatim>\<open>INVALID_REQUEST\<close>, the request number \<open>final\<close> with \<open>m\<close> results and every other request
  with \<open>100\<close> results; the elevations in the response to the request number \<open>k\<close> are
  \<open>1000 + k\<close>.
\<close>

definition fetch_invalid_at :: "nat \<Rightarrow> nat \<Rightarrow> nat \<Rightarrow> nat \<Rightarrow> string \<Rightarrow> Response" where
  "fetch_invalid_at bad final m k url =
     (if k = bad then response_200 0 ''INVALID_REQUEST''
      else \<lparr>http_status = 200,
            body = Some \<lparr>results = replicate (if k = final then m else 100)
                                     (example_row\<lparr>elevation := 1000 + real k\<rparr>),
                         status = ''OK''\<rparr>\<rparr>)"

text \<open>
  A solver that gives one candidate that is not optimal and then an optimal one: a flat
  triangle of 10 km with a penalty of 2 km.
\<close>

definition example_solution :: "bool \<Rightarrow> Solution" where
  "example_solution opt =
     \<lparr>optimal = opt, scoreInfo = Some \<lparr>distance = 10, penalty = Some 2\<rparr>, scoring_code = ''tri''\<rparr>"

definition example_solver :: "IGCFile \<Rightarrow> nat \<Rightarrow> Solution option" where
  "example_solver igc k = (if k = 0 then Some (example_solution False) else Some (example_solution True))"

definition example_env :: "(nat \<Rightarrow> string \<Rightarrow> Response) \<Rightarrow> nat \<Rightarrow> Env" where
  "example_env fetch n =
     \<lparr>env_fetch = fetch, env_solver = example_solver,
      env_realpath = (\<lambda>p. Some p),
      env_parse = (\<lambda>text. Some (example_log n)),
      env_csv_path = (\<lambda>p. ''flight.csv''),
      env_number_to_string = (\<lambda>x. ''1500'')\<rparr>"

text \<open>A log of \<open>n\<close> fixes one second apart from 12:00:00 on, each with its own time.\<close>

definition two_digits :: "nat \<Rightarrow> string" where
  "two_digits n = (if n < 10 then ''0'' @ nat_to_string n else nat_to_string n)"

definition timed_fix :: "nat \<Rightarrow> BRecord" where
  "timed_fix k =
     \<lparr>time = ''12:'' @ two_digits (k div 60) @ '':'' @ two_digits (k mod 60),
      timestamp = 1000 * real k, latitude = 47, longitude = 11, gpsAltitude = 1500\<rparr>"

definition timed_log :: "nat \<Rightarrow> IGCFile" where
  "timed_log n = \<lparr>date = ''2024-06-01'', igc_fixes = map timed_fix [0..<n]\<rparr>"

text \<open>
  A solver whose first candidate is optimal and has no \<^verbatim>\<open>scoreInfo\<close>, as for a track on
  which no route can be scored.
\<close>

definition bare_solution :: Solution where
  "bare_solution = \<lparr>optimal = True, scoreInfo = None, scoring_code = []\<rparr>"

definition bare_solver :: "IGCFile \<Rightarrow> nat \<Rightarrow> Solution option" where
  "bare_solver igc k = Some bare_solution"

section \<open>Evaluating the built-in operations\<close>

lemma nat_to_string_small: "n < 10 \<Longrightarrow> nat_to_string n = [digit_char n]"
  by (simp add: nat_to_string.simps)

lemma nat_to_string_large:
  "\<not> n < 10 \<Longrightarrow> nat_to_string n = nat_to_string (n div 10) @ [digit_char (n mod 10)]"
  by (subst nat_to_string.simps) simp

lemma replicate_numeral_eval: "replicate (numeral k) x = x # replicate (pred_numeral k) x"
  by (simp add: numeral_eq_Suc)

lemmas toFixed_eval = toFixed_def Let_def nat_to_string_small nat_to_string_large digit_char_def
  replicate_numeral_eval

section \<open>The digits of a rounded number\<close>

lemma length_fixed_digits: "length (fixed_digits f r) = f"
  by (induction f arbitrary: r) simp_all

lemma fixed_digits_0: "fixed_digits f 0 = replicate f (CHR ''0'')"
  by (induction f) (simp_all add: digit_char_def replicate_append_same)

lemma length_nat_to_string_pos: "0 < length (nat_to_string n)"
  by (subst nat_to_string.simps) simp

text \<open>A number of more than \<open>f\<close> digits: its digits are those of \<open>n div 10^f\<close>, then the last \<open>f\<close>.\<close>

lemma nat_to_string_split:
  assumes "10 ^ f \<le> n"
  shows "nat_to_string n = nat_to_string (n div 10 ^ f) @ fixed_digits f (n mod 10 ^ f)"
  using assms
proof (induction f arbitrary: n)
  case 0
  then show ?case by simp
next
  case (Suc f)
  have "(10::nat) * 1 \<le> 10 * 10 ^ f"
    by (rule mult_le_mono2) simp
  also have "\<dots> \<le> n"
    using Suc.prems by simp
  finally have n10: "\<not> n < 10" by simp
  from Suc.prems have "10 ^ f \<le> n div 10"
    by (simp add: less_eq_div_iff_mult_less_eq mult.commute)
  then have IH: "nat_to_string (n div 10) =
      nat_to_string (n div 10 div 10 ^ f) @ fixed_digits f (n div 10 mod 10 ^ f)"
    by (rule Suc.IH)
  have d1: "n div 10 div 10 ^ f = n div 10 ^ Suc f"
    by (simp add: div_mult2_eq)
  have d2: "n mod (10 * 10 ^ f) div 10 = n div 10 mod 10 ^ f"
    by (simp add: mod_mult2_eq)
  have d3: "n mod (10 * 10 ^ f) mod 10 = n mod 10"
    by (simp add: mod_mod_cancel)
  show ?case
    using n10 by (simp add: nat_to_string_large IH d1 d2 d3)
qed

text \<open>A number of at most \<open>f\<close> digits: its last \<open>f\<close> digits are zeros, then its digits.\<close>

lemma fixed_digits_small:
  assumes "0 < f" and "n < 10 ^ f"
  shows "fixed_digits f n =
         replicate (f - length (nat_to_string n)) (CHR ''0'') @ nat_to_string n"
  using assms
proof (induction f arbitrary: n)
  case 0
  then show ?case by simp
next
  case (Suc f)
  show ?case
  proof (cases "n < 10")
    case True
    then show ?thesis
      by (simp add: nat_to_string_small fixed_digits_0)
  next
    case False
    with Suc.prems have f: "0 < f"
      by (cases f) simp_all
    from Suc.prems have "n div 10 < 10 ^ f"
      by (simp add: div_less_iff_less_mult mult.commute)
    with f have "fixed_digits f (n div 10) =
         replicate (f - length (nat_to_string (n div 10))) (CHR ''0'') @ nat_to_string (n div 10)"
      by (rule Suc.IH)
    with False show ?thesis
      by (simp add: nat_to_string_large)
  qed
qed

lemma length_nat_to_string_small:
  assumes "0 < f" and "n < 10 ^ f"
  shows "length (nat_to_string n) \<le> f"
proof (rule ccontr)
  assume "\<not> length (nat_to_string n) \<le> f"
  then have "f - length (nat_to_string n) = 0" by simp
  with fixed_digits_small [OF assms] have "fixed_digits f n = nat_to_string n" by simp
  then have "length (nat_to_string n) = f"
    by (metis length_fixed_digits)
  with \<open>\<not> length (nat_to_string n) \<le> f\<close> show False by simp
qed

lemma length_nat_to_string_large:
  assumes "10 ^ f \<le> n"
  shows "f < length (nat_to_string n)"
proof -
  have "length (nat_to_string n) = length (nat_to_string (n div 10 ^ f)) + f"
    by (subst nat_to_string_split [OF assms]) (simp add: length_fixed_digits)
  with length_nat_to_string_pos [of "n div 10 ^ f"] show ?thesis by simp
qed

text \<open>\<^const>\<open>toFixed\<close> with at least one decimal digit gives the rounded number in decimal notation.\<close>

lemma toFixed_rounded:
  assumes "0 < f"
  shows "toFixed f x = rounded f x"
proof -
  define n where "n = nat \<lfloor>\<bar>x\<bar> * 10 ^ f + 1 / 2\<rfloor>"
  define m where "m = nat_to_string n"
  have n': "nat \<lfloor>(if x < 0 then - x else x) * 10 ^ f + 1 / 2\<rfloor> = n"
    by (simp add: n_def abs_if)
  have tf: "toFixed f x = (if x < 0 then ''-'' else []) @
      (if length m \<le> f then
         take 1 (replicate (f + 1 - length m) (CHR ''0'') @ m) @ ''.'' @
         drop 1 (replicate (f + 1 - length m) (CHR ''0'') @ m)
       else take (length m - f) m @ ''.'' @ drop (length m - f) m)"
    using assms by (simp add: toFixed_def Let_def n' m_def)
  have "(if length m \<le> f then
         take 1 (replicate (f + 1 - length m) (CHR ''0'') @ m) @ ''.'' @
         drop 1 (replicate (f + 1 - length m) (CHR ''0'') @ m)
       else take (length m - f) m @ ''.'' @ drop (length m - f) m)
     = nat_to_string (n div 10 ^ f) @ ''.'' @ fixed_digits f (n mod 10 ^ f)"
  proof (cases "length m \<le> f")
    case True
    then have small: "n < 10 ^ f"
      using length_nat_to_string_large [of f n] by (fastforce simp: m_def)
    from True have "replicate (f + 1 - length m) (CHR ''0'') @ m
        = CHR ''0'' # replicate (f - length m) (CHR ''0'') @ m"
      by (simp add: Suc_diff_le)
    also have "replicate (f - length m) (CHR ''0'') @ m = fixed_digits f n"
      unfolding m_def by (rule fixed_digits_small [OF assms small, symmetric])
    finally have "replicate (f + 1 - length m) (CHR ''0'') @ m = CHR ''0'' # fixed_digits f n" .
    with True small show ?thesis
      by (simp add: nat_to_string_small digit_char_def)
  next
    case False
    then have large: "10 ^ f \<le> n"
      using length_nat_to_string_small [OF assms, of n] by (fastforce simp: m_def)
    have m: "m = nat_to_string (n div 10 ^ f) @ fixed_digits f (n mod 10 ^ f)"
      unfolding m_def by (rule nat_to_string_split [OF large])
    have "length m - f = length (nat_to_string (n div 10 ^ f))"
      by (subst m) (simp add: length_fixed_digits)
    then have "take (length m - f) m = nat_to_string (n div 10 ^ f)"
      and "drop (length m - f) m = fixed_digits f (n mod 10 ^ f)"
      by (simp_all add: m [symmetric]) (subst m, simp)+
    with False show ?thesis by simp
  qed
  with tf show ?thesis
    by (simp add: rounded_def n_def)
qed

section \<open>The elevation lookup, batch by batch\<close>

lemma batch_count_less: "k < batch_count N \<longleftrightarrow> k * ELEVATION_CHUNK_SIZE < N"
  unfolding batch_count_def ELEVATION_CHUNK_SIZE_def by (simp add: less_eq_div_iff_mult_less_eq) arith

lemma slice_batch: "slice fxs (k * ELEVATION_CHUNK_SIZE) (k * ELEVATION_CHUNK_SIZE + ELEVATION_CHUNK_SIZE) = batch fxs k"
  by (simp add: slice_def batch_def)

lemma Suc_mult_chunk: "Suc k * n = k * n + n"
  by simp

text \<open>One pass of the lookup loop over a readable response.\<close>

lemma elevations_loop_step:
  assumes "k < batch_count (length fxs)" and "readable (response_to fetch server fxs k)"
    and "length reqs = k"
  shows "getGroundElevations_loop fetch server fxs (k * ELEVATION_CHUNK_SIZE) result reqs =
         getGroundElevations_loop fetch server fxs (Suc k * ELEVATION_CHUNK_SIZE)
           (result @ contribution (response_to fetch server fxs k))
           (reqs @ [request_url server (batch fxs k)])"
proof -
  from assms(1) have lt: "k * ELEVATION_CHUNK_SIZE < length fxs"
    by (simp add: batch_count_less)
  from assms(2) obtain data where d: "ok (response_to fetch server fxs k)"
      "body (response_to fetch server fxs k) = Some data"
    by (auto simp: readable_def)
  show ?thesis
    apply (subst getGroundElevations_loop.simps)
    using lt d assms(3)
    by (simp only: slice_batch Let_def Suc_mult_chunk)
       (simp add: response_to_def[symmetric] reports_success_def elevations_in_def contribution_def)
qed

lemma elevations_loop_stop:
  assumes "\<not> k < batch_count (length fxs)"
  shows "getGroundElevations_loop fetch server fxs (k * ELEVATION_CHUNK_SIZE) result reqs = (Inr result, reqs)"
  using assms by (subst getGroundElevations_loop.simps) (simp add: batch_count_less)

lemma elevations_loop_throw:
  assumes "k < batch_count (length fxs)" and "\<not> readable (response_to fetch server fxs k)"
    and "length reqs = k"
  shows "getGroundElevations_loop fetch server fxs (k * ELEVATION_CHUNK_SIZE) result reqs =
         (Inl (error_of (response_to fetch server fxs k)), reqs @ [request_url server (batch fxs k)])"
proof -
  from assms(1) have lt: "k * ELEVATION_CHUNK_SIZE < length fxs"
    by (simp add: batch_count_less)
  show ?thesis
    apply (subst getGroundElevations_loop.simps)
    using lt assms(2,3)
    by (simp only: slice_batch Let_def Suc_mult_chunk)
       (auto simp add: response_to_def[symmetric] readable_def error_of_def)
qed

lemma elevations_loop_readable:
  assumes "\<forall>k. k0 \<le> k \<and> k < batch_count (length fxs) \<longrightarrow> readable (response_to fetch server fxs k)"
    and "length reqs = k0"
  shows "getGroundElevations_loop fetch server fxs (k0 * ELEVATION_CHUNK_SIZE) result reqs =
         (Inr (result @ concat (map (\<lambda>k. contribution (response_to fetch server fxs k))
                                  [k0..<batch_count (length fxs)])),
          reqs @ map (\<lambda>k. request_url server (batch fxs k)) [k0..<batch_count (length fxs)])"
  using assms
proof (induction "batch_count (length fxs) - k0" arbitrary: k0 result reqs)
  case 0
  then show ?case by (simp add: elevations_loop_stop)
next
  case (Suc d)
  then have lt: "k0 < batch_count (length fxs)" by simp
  with Suc.prems have r: "readable (response_to fetch server fxs k0)" by simp
  have "getGroundElevations_loop fetch server fxs (k0 * ELEVATION_CHUNK_SIZE) result reqs =
        getGroundElevations_loop fetch server fxs (Suc k0 * ELEVATION_CHUNK_SIZE)
          (result @ contribution (response_to fetch server fxs k0))
          (reqs @ [request_url server (batch fxs k0)])"
    using lt r Suc.prems(2) by (rule elevations_loop_step)
  also have "\<dots> = (Inr ((result @ contribution (response_to fetch server fxs k0)) @
                     concat (map (\<lambda>k. contribution (response_to fetch server fxs k))
                                  [Suc k0..<batch_count (length fxs)])),
                 (reqs @ [request_url server (batch fxs k0)]) @
                   map (\<lambda>k. request_url server (batch fxs k)) [Suc k0..<batch_count (length fxs)])"
    using Suc.hyps(2) Suc.prems by (intro Suc.hyps(1)) auto
  finally show ?case using lt by (simp add: upt_conv_Cons)
qed

lemma elevations_loop_first_unreadable:
  assumes "k0 \<le> m" and "m < batch_count (length fxs)"
    and "\<not> readable (response_to fetch server fxs m)"
    and "\<forall>k. k0 \<le> k \<and> k < m \<longrightarrow> readable (response_to fetch server fxs k)"
    and "length reqs = k0"
  shows "getGroundElevations_loop fetch server fxs (k0 * ELEVATION_CHUNK_SIZE) result reqs =
         (Inl (error_of (response_to fetch server fxs m)),
          reqs @ map (\<lambda>k. request_url server (batch fxs k)) [k0..<Suc m])"
  using assms
proof (induction "m - k0" arbitrary: k0 result reqs)
  case 0
  then have "k0 = m" by simp
  with 0 show ?case by (simp add: elevations_loop_throw)
next
  case (Suc d)
  then have lt: "k0 < m" by simp
  with Suc.prems have k0: "k0 < batch_count (length fxs)" and r: "readable (response_to fetch server fxs k0)"
    by simp_all
  have "getGroundElevations_loop fetch server fxs (k0 * ELEVATION_CHUNK_SIZE) result reqs =
        getGroundElevations_loop fetch server fxs (Suc k0 * ELEVATION_CHUNK_SIZE)
          (result @ contribution (response_to fetch server fxs k0))
          (reqs @ [request_url server (batch fxs k0)])"
    using k0 r Suc.prems(5) by (rule elevations_loop_step)
  also have "\<dots> = (Inl (error_of (response_to fetch server fxs m)),
                 (reqs @ [request_url server (batch fxs k0)]) @
                   map (\<lambda>k. request_url server (batch fxs k)) [Suc k0..<Suc m])"
    using Suc.hyps(2) Suc.prems lt by (intro Suc.hyps(1)) auto
  finally show ?case using lt by (simp add: upt_conv_Cons)
qed

text \<open>The lookup as a whole: it returns when every response is readable, and throws at the first that is not.\<close>

lemma getGroundElevations_readable:
  assumes "\<forall>k<batch_count (length (igc_fixes igc)). readable (response_to fetch server (igc_fixes igc) k)"
  shows "getGroundElevations fetch server igc =
         (Inr (concat (map (\<lambda>k. contribution (response_to fetch server (igc_fixes igc) k))
                           [0..<batch_count (length (igc_fixes igc))])),
          map (\<lambda>k. request_url server (batch (igc_fixes igc) k)) [0..<batch_count (length (igc_fixes igc))])"
  using elevations_loop_readable [of 0 "igc_fixes igc" fetch server "[]" "[]"] assms
  by (simp add: getGroundElevations_def)

lemma getGroundElevations_first_unreadable:
  assumes "m < batch_count (length (igc_fixes igc))"
    and "\<not> readable (response_to fetch server (igc_fixes igc) m)"
    and "\<forall>k<m. readable (response_to fetch server (igc_fixes igc) k)"
  shows "getGroundElevations fetch server igc =
         (Inl (error_of (response_to fetch server (igc_fixes igc) m)),
          map (\<lambda>k. request_url server (batch (igc_fixes igc) k)) [0..<Suc m])"
  using elevations_loop_first_unreadable [of 0 m "igc_fixes igc" fetch server "[]" "[]"] assms
  by (simp add: getGroundElevations_def)

lemma first_unreadable_exists:
  assumes "(k::nat) < n" and "\<not> readable (f k)"
  shows "\<exists>m\<le>k. \<not> readable (f m) \<and> (\<forall>j<m. readable (f j))"
proof -
  define m where "m = (LEAST j. \<not> readable (f j))"
  have "\<not> readable (f m)" unfolding m_def
    using assms(2) by (rule LeastI [where P = "\<lambda>j. \<not> readable (f j)"])
  moreover have "m \<le> k" unfolding m_def
    using assms(2) by (rule Least_le [where P = "\<lambda>j. \<not> readable (f j)"])
  moreover have "\<forall>j<m. readable (f j)" unfolding m_def using not_less_Least by blast
  ultimately show ?thesis by blast
qed

lemma length_batch: "length (batch fxs k) = min ELEVATION_CHUNK_SIZE (length fxs - k * ELEVATION_CHUNK_SIZE)"
  by (simp add: batch_def)

section \<open>The solver loop\<close>

lemma solve_loop_skips:
  assumes "\<forall>j<d. \<exists>c'. candidates (k + j) = Some c' \<and> \<not> optimal c'"
  shows "solve_loop candidates k l f = solve_loop candidates (k + d) l f"
  using assms
proof (induction d arbitrary: k)
  case 0
  then show ?case by simp
next
  case (Suc d)
  from Suc.prems obtain c' where c': "candidates k = Some c'" "\<not> optimal c'"
    by (metis add.right_neutral zero_less_Suc)
  have "\<forall>j<d. \<exists>c'. candidates (Suc k + j) = Some c' \<and> \<not> optimal c'"
    using Suc.prems by (metis Suc_less_eq add_Suc_shift)
  then have "solve_loop candidates (Suc k) l f = solve_loop candidates (Suc k + d) l f"
    by (rule Suc.IH)
  moreover have "solve_loop candidates k l f = solve_loop candidates (Suc k) l f"
    using c' by (subst solve_loop.simps) simp
  ultimately show ?case by simp
qed

lemma solve_loop_first_optimal:
  assumes "first_optimal candidates c" and "scoreInfo c = Some info"
  shows "solve_loop candidates 0 l f =
         Some (Inr (xc_text c info, divide_number (distance info) ((l - f) / 3600000)))"
proof -
  from assms(1) obtain k where k: "candidates k = Some c" "optimal c"
      "\<forall>j<k. \<exists>c'. candidates j = Some c' \<and> \<not> optimal c'"
    unfolding first_optimal_def by blast
  from k(3) have "solve_loop candidates 0 l f = solve_loop candidates (0 + k) l f"
    by (intro solve_loop_skips) simp
  also have "\<dots> = Some (Inr (xc_text c info, divide_number (distance info) ((l - f) / 3600000)))"
    using k(1,2) assms(2) by (subst solve_loop.simps) simp
  finally show ?thesis .
qed

section \<open>The scoring loop, chunk by chunk\<close>

lemma chunk_count_less: "k < chunk_count N \<longleftrightarrow> k * CHUNK_SIZE < N"
  unfolding chunk_count_def CHUNK_SIZE_def by (simp add: less_eq_div_iff_mult_less_eq) arith

lemma slice_chunk: "slice fxs (k * CHUNK_SIZE) (k * CHUNK_SIZE + CHUNK_SIZE) = chunk_of fxs k"
  by (simp add: slice_def chunk_of_def)

lemma CHUNK_SIZE_pos: "0 < CHUNK_SIZE"
  by (simp add: CHUNK_SIZE_def)

lemma length_chunk_of: "length (chunk_of fxs k) = min CHUNK_SIZE (length fxs - k * CHUNK_SIZE)"
  by (simp add: chunk_of_def)

lemma state_before_extend:
  "state_before igc k\<lparr>igc_fixes := igc_fixes (state_before igc k) @ chunk_of (igc_fixes igc) k\<rparr>
   = prefix_log igc k"
proof -
  have "take (k * CHUNK_SIZE) (igc_fixes igc) @ take CHUNK_SIZE (drop (k * CHUNK_SIZE) (igc_fixes igc))
        = take (k * CHUNK_SIZE + CHUNK_SIZE) (igc_fixes igc)"
    by (simp only: take_add)
  then show ?thesis
    by (simp add: state_before_def prefix_log_def chunk_of_def add.commute)
qed

lemma prefix_log_state: "prefix_log igc k = state_before igc (Suc k)"
  by (simp add: state_before_def prefix_log_def)

lemma chunk_of_last:
  assumes "k * CHUNK_SIZE < length fxs"
  shows "chunk_of fxs k ! (length (chunk_of fxs k) - 1) = fxs ! chunk_last (length fxs) k"
proof -
  have pos: "0 < length (chunk_of fxs k)"
    using assms CHUNK_SIZE_pos by (simp add: length_chunk_of)
  have "chunk_of fxs k ! (length (chunk_of fxs k) - 1)
        = fxs ! (k * CHUNK_SIZE + (length (chunk_of fxs k) - 1))"
    using pos assms unfolding chunk_of_def by simp
  also have "k * CHUNK_SIZE + (length (chunk_of fxs k) - 1) = chunk_last (length fxs) k"
    using pos assms by (auto simp: length_chunk_of chunk_last_def min_def)
  finally show ?thesis .
qed

text \<open>One pass of the scoring loop.\<close>

lemma processData_loop_step:
  assumes "k < chunk_count (length (igc_fixes igc))"
  shows "processData_loop solver elevations (igc_fixes igc) (timestamp (igc_fixes igc ! 0))
           (k * CHUNK_SIZE) (state_before igc k) processedData calls =
         (case chunk_score solver igc k of
            None \<Rightarrow> None
          | Some (Inl e) \<Rightarrow> Some (Inl e, prefix_log igc k, calls @ [prefix_log igc k])
          | Some (Inr (xc_value, avgSpeed_value)) \<Rightarrow>
              processData_loop solver elevations (igc_fixes igc) (timestamp (igc_fixes igc ! 0))
                (Suc k * CHUNK_SIZE) (state_before igc (Suc k))
                (processedData @
                   chunk_rows elevations (k * CHUNK_SIZE) xc_value avgSpeed_value
                     (chunk_of (igc_fixes igc) k))
                (calls @ [prefix_log igc k]))"
proof -
  from assms have lt: "k * CHUNK_SIZE < length (igc_fixes igc)"
    by (simp add: chunk_count_less)
  show ?thesis
    apply (subst processData_loop.simps)
    using lt
    by (simp only: slice_chunk Let_def Suc_mult_chunk state_before_extend chunk_of_last
          chunk_score_def prefix_log_state if_True)
qed

lemma processData_loop_stop:
  assumes "\<not> k < chunk_count (length (igc_fixes igc))"
  shows "processData_loop solver elevations (igc_fixes igc) first
           (k * CHUNK_SIZE) (state_before igc k) processedData calls =
         Some (Inr processedData, igc, calls)"
proof -
  from assms have "length (igc_fixes igc) \<le> k * CHUNK_SIZE"
    by (simp add: chunk_count_less)
  then show ?thesis
    by (subst processData_loop.simps) (simp add: state_before_def)
qed

lemma processData_loop_scores:
  assumes "\<forall>k. k0 \<le> k \<and> k < chunk_count (length (igc_fixes igc)) \<longrightarrow>
             chunk_score solver igc k = Some (Inr (S k))"
  shows "processData_loop solver elevations (igc_fixes igc) (timestamp (igc_fixes igc ! 0))
           (k0 * CHUNK_SIZE) (state_before igc k0) processedData calls =
         Some (Inr (processedData @
                 concat (map (\<lambda>k. chunk_rows elevations (k * CHUNK_SIZE) (fst (S k)) (snd (S k))
                                    (chunk_of (igc_fixes igc) k))
                           [k0..<chunk_count (length (igc_fixes igc))])),
               igc, calls @ map (prefix_log igc) [k0..<chunk_count (length (igc_fixes igc))])"
  using assms
proof (induction "chunk_count (length (igc_fixes igc)) - k0" arbitrary: k0 processedData calls)
  case 0
  then show ?case by (simp add: processData_loop_stop)
next
  case (Suc d)
  then have lt: "k0 < chunk_count (length (igc_fixes igc))" by simp
  with Suc.prems have sc: "chunk_score solver igc k0 = Some (Inr (fst (S k0), snd (S k0)))" by simp
  have "processData_loop solver elevations (igc_fixes igc) (timestamp (igc_fixes igc ! 0))
           (k0 * CHUNK_SIZE) (state_before igc k0) processedData calls =
        processData_loop solver elevations (igc_fixes igc) (timestamp (igc_fixes igc ! 0))
           (Suc k0 * CHUNK_SIZE) (state_before igc (Suc k0))
           (processedData @ chunk_rows elevations (k0 * CHUNK_SIZE) (fst (S k0)) (snd (S k0))
                              (chunk_of (igc_fixes igc) k0))
           (calls @ [prefix_log igc k0])"
    by (simp only: processData_loop_step [OF lt] sc option.case sum.case prod.case)
  also have "\<dots> = Some (Inr ((processedData @ chunk_rows elevations (k0 * CHUNK_SIZE) (fst (S k0)) (snd (S k0))
                              (chunk_of (igc_fixes igc) k0)) @
                 concat (map (\<lambda>k. chunk_rows elevations (k * CHUNK_SIZE) (fst (S k)) (snd (S k))
                                    (chunk_of (igc_fixes igc) k))
                           [Suc k0..<chunk_count (length (igc_fixes igc))])),
               igc, (calls @ [prefix_log igc k0]) @
                    map (prefix_log igc) [Suc k0..<chunk_count (length (igc_fixes igc))])"
    using Suc.hyps(2) Suc.prems by (intro Suc.hyps(1)) auto
  finally show ?case using lt by (simp add: upt_conv_Cons)
qed

text \<open>
  A scoring loop that returns rows has put every fix back into the log, and has created
  the solver once for every chunk, on the prefix that ends with the chunk.
\<close>

lemma processData_loop_restores:
  assumes "processData_loop solver elevations (igc_fixes igc) (timestamp (igc_fixes igc ! 0))
             (k0 * CHUNK_SIZE) (state_before igc k0) processedData calls = Some (Inr rows, igc', calls')"
  shows "igc' = igc \<and>
         calls' = calls @ map (prefix_log igc) [k0..<chunk_count (length (igc_fixes igc))]"
  using assms
proof (induction "chunk_count (length (igc_fixes igc)) - k0" arbitrary: k0 processedData calls)
  case 0
  then show ?case by (simp add: processData_loop_stop)
next
  case (Suc d)
  then have lt: "k0 < chunk_count (length (igc_fixes igc))" by simp
  show ?case
  proof (cases "chunk_score solver igc k0")
    case None
    with Suc.prems show ?thesis by (simp add: processData_loop_step [OF lt])
  next
    case (Some r)
    show ?thesis
    proof (cases r)
      case (Inl e)
      with Some Suc.prems show ?thesis by (simp add: processData_loop_step [OF lt])
    next
      case (Inr v)
      obtain x a where v: "v = (x, a)" by (cases v)
      have "processData_loop solver elevations (igc_fixes igc) (timestamp (igc_fixes igc ! 0))
              (Suc k0 * CHUNK_SIZE) (state_before igc (Suc k0))
              (processedData @ chunk_rows elevations (k0 * CHUNK_SIZE) x a (chunk_of (igc_fixes igc) k0))
              (calls @ [prefix_log igc k0]) = Some (Inr rows, igc', calls')"
        using Suc.prems
        by (simp only: processData_loop_step [OF lt] Some Inr v option.case sum.case prod.case)
      moreover have "d = chunk_count (length (igc_fixes igc)) - Suc k0"
        using Suc.hyps(2) by simp
      ultimately have "igc' = igc \<and>
         calls' = (calls @ [prefix_log igc k0]) @
                  map (prefix_log igc) [Suc k0..<chunk_count (length (igc_fixes igc))]"
        by (rule Suc.hyps(1) [rotated])
      then show ?thesis using lt by (simp add: upt_conv_Cons)
    qed
  qed
qed

text \<open>Pieces that have the sizes of consecutive chunks of \<open>c\<close> line up with the positions.\<close>

lemma concat_aligned:
  assumes "0 < c"
    and "\<forall>k. k * c < N \<longrightarrow> length (f k) = min c (N - k * c)"
    and "m * c < N + c"
  shows "length (concat (map f [0..<m])) = min (m * c) N \<and>
         (\<forall>p<min (m * c) N. concat (map f [0..<m]) ! p = f (p div c) ! (p mod c))"
  using assms(3)
proof (induction m)
  case 0
  then show ?case by simp
next
  case (Suc m)
  then have lt: "m * c < N" by simp
  have mn: "min (m * c) N = m * c"
    using lt by simp
  from Suc.IH lt have IH0: "length (concat (map f [0..<m])) = min (m * c) N \<and>
         (\<forall>p<min (m * c) N. concat (map f [0..<m]) ! p = f (p div c) ! (p mod c))"
    by simp
  have IH: "length (concat (map f [0..<m])) = m * c"
    "\<And>p. p < m * c \<Longrightarrow> concat (map f [0..<m]) ! p = f (p div c) ! (p mod c)"
    using IH0 unfolding mn by blast+
  have lf: "length (f m) = min c (N - m * c)"
    using assms(2) lt by simp
  have len: "length (concat (map f [0..<Suc m])) = min (Suc m * c) N"
    using IH(1) lf lt by (auto simp: min_def)
  have nth: "concat (map f [0..<Suc m]) ! p = f (p div c) ! (p mod c)"
    if p: "p < min (Suc m * c) N" for p
  proof (cases "p < m * c")
    case True
    then show ?thesis using IH by (simp add: nth_append)
  next
    case False
    then have b: "c * m \<le> p" "p < c * Suc m"
      using p by (simp_all add: mult.commute)
    then have d: "p div c = m"
      by (rule div_nat_eqI)
    have "p mod c = p - p div c * c"
      by (simp add: minus_div_mult_eq_mod)
    with d have "p mod c = p - m * c" by simp
    with d show ?thesis using False IH(1) by (simp add: nth_append)
  qed
  from len nth show ?case by blast
qed

lemma getGroundElevations_returns:
  assumes "\<forall>k<batch_count (length (igc_fixes igc)). readable (response_to fetch server (igc_fixes igc) k)"
  shows "getGroundElevations fetch server igc =
         (Inr (lookup_result fetch server (igc_fixes igc)),
          request_urls server (igc_fixes igc) (batch_count (length (igc_fixes igc))))"
  using getGroundElevations_readable [OF assms] by (simp add: lookup_result_def request_urls_def)

lemma getGroundElevations_throws:
  assumes "m < batch_count (length (igc_fixes igc))"
    and "\<not> readable (response_to fetch server (igc_fixes igc) m)"
    and "\<forall>k<m. readable (response_to fetch server (igc_fixes igc) k)"
  shows "getGroundElevations fetch server igc =
         (Inl (error_of (response_to fetch server (igc_fixes igc) m)),
          request_urls server (igc_fixes igc) (Suc m))"
  using getGroundElevations_first_unreadable [OF assms] by (simp add: request_urls_def)

lemma length_chunk_rows: "length (chunk_rows elevations i x a ch) = length ch"
  by (simp add: chunk_rows_def)

lemma nth_chunk_rows:
  assumes "j < length ch"
  shows "chunk_rows elevations i x a ch ! j =
         \<lparr>row_time = time (ch ! j), gpsAlt = gpsAltitude (ch ! j),
          groundElev = index_opt elevations (i + j), xc = x, avgSpeed = a\<rparr>"
  using assms by (simp add: chunk_rows_def nth_enumerate_eq)

lemma chunk_count_bound: "chunk_count N * CHUNK_SIZE < N + CHUNK_SIZE"
proof -
  have "(N + (CHUNK_SIZE - 1)) div CHUNK_SIZE * CHUNK_SIZE \<le> N + (CHUNK_SIZE - 1)"
    by (rule div_times_less_eq_dividend)
  moreover have "N + (CHUNK_SIZE - 1) < N + CHUNK_SIZE"
    using CHUNK_SIZE_pos by simp
  ultimately show ?thesis unfolding chunk_count_def by (rule le_less_trans)
qed

lemma batch_count_bound: "batch_count N * ELEVATION_CHUNK_SIZE < N + ELEVATION_CHUNK_SIZE"
proof -
  have "(N + (ELEVATION_CHUNK_SIZE - 1)) div ELEVATION_CHUNK_SIZE * ELEVATION_CHUNK_SIZE
        \<le> N + (ELEVATION_CHUNK_SIZE - 1)"
    by (rule div_times_less_eq_dividend)
  moreover have "N + (ELEVATION_CHUNK_SIZE - 1) < N + ELEVATION_CHUNK_SIZE"
    by (simp add: ELEVATION_CHUNK_SIZE_def)
  ultimately show ?thesis unfolding batch_count_def by (rule le_less_trans)
qed

text \<open>The rows of all chunks, one after the other, are one row per fix.\<close>

lemma chunk_rows_concat:
  fixes fxs :: "BRecord list" and elevations :: "real list" and S :: "nat \<Rightarrow> string \<times> number"
  defines "rows \<equiv> concat (map (\<lambda>k. chunk_rows elevations (k * CHUNK_SIZE) (fst (S k)) (snd (S k))
                                    (chunk_of fxs k)) [0..<chunk_count (length fxs)])"
  shows "length rows = length fxs"
    and "i < length fxs \<Longrightarrow> rows ! i =
         \<lparr>row_time = time (fxs ! i), gpsAlt = gpsAltitude (fxs ! i),
          groundElev = index_opt elevations i,
          xc = fst (S (i div CHUNK_SIZE)), avgSpeed = snd (S (i div CHUNK_SIZE))\<rparr>"
proof -
  let ?f = "\<lambda>k. chunk_rows elevations (k * CHUNK_SIZE) (fst (S k)) (snd (S k)) (chunk_of fxs k)"
  have al: "length (concat (map ?f [0..<chunk_count (length fxs)]))
              = min (chunk_count (length fxs) * CHUNK_SIZE) (length fxs) \<and>
            (\<forall>p<min (chunk_count (length fxs) * CHUNK_SIZE) (length fxs).
               concat (map ?f [0..<chunk_count (length fxs)]) ! p = ?f (p div CHUNK_SIZE) ! (p mod CHUNK_SIZE))"
    by (rule concat_aligned [OF CHUNK_SIZE_pos _ chunk_count_bound])
       (simp add: length_chunk_rows length_chunk_of)
  have ge: "length fxs \<le> chunk_count (length fxs) * CHUNK_SIZE"
    using chunk_count_less [of "chunk_count (length fxs)" "length fxs"] by simp
  then have mn: "min (chunk_count (length fxs) * CHUNK_SIZE) (length fxs) = length fxs"
    by simp
  from al show "length rows = length fxs"
    unfolding rows_def mn by blast
  assume i: "i < length fxs"
  define k where "k = i div CHUNK_SIZE"
  define j where "j = i mod CHUNK_SIZE"
  have ikj: "k * CHUNK_SIZE + j = i"
    by (simp add: k_def j_def)
  have j: "j < length (chunk_of fxs k)"
    using i ikj CHUNK_SIZE_pos by (auto simp: length_chunk_of j_def)
  have "rows ! i = ?f k ! j"
    using al i unfolding rows_def mn k_def j_def by blast
  also have "\<dots> = \<lparr>row_time = time (chunk_of fxs k ! j), gpsAlt = gpsAltitude (chunk_of fxs k ! j),
          groundElev = index_opt elevations (k * CHUNK_SIZE + j), xc = fst (S k), avgSpeed = snd (S k)\<rparr>"
    using j by (rule nth_chunk_rows)
  also have "chunk_of fxs k ! j = fxs ! (k * CHUNK_SIZE + j)"
    using j i ikj by (simp add: chunk_of_def)
  finally have "rows ! i =
         \<lparr>row_time = time (fxs ! (k * CHUNK_SIZE + j)), gpsAlt = gpsAltitude (fxs ! (k * CHUNK_SIZE + j)),
          groundElev = index_opt elevations (k * CHUNK_SIZE + j), xc = fst (S k), avgSpeed = snd (S k)\<rparr>" .
  then show "rows ! i =
         \<lparr>row_time = time (fxs ! i), gpsAlt = gpsAltitude (fxs ! i),
          groundElev = index_opt elevations i,
          xc = fst (S (i div CHUNK_SIZE)), avgSpeed = snd (S (i div CHUNK_SIZE))\<rparr>"
    unfolding ikj unfolding k_def .
qed

lemma state_before_0: "state_before igc 0 = igc\<lparr>igc_fixes := []\<rparr>"
  by (simp add: state_before_def)

text \<open>The run of \<^const>\<open>processData\<close> when the lookup returns and every chunk gets a score.\<close>

lemma processData_scored:
  assumes ne: "igc_fixes igc \<noteq> []"
    and rd: "\<forall>k<batch_count (length (igc_fixes igc)). readable (response_to fetch server (igc_fixes igc) k)"
    and sc: "\<forall>k<chunk_count (length (igc_fixes igc)). chunk_score solver igc k = Some (Inr (S k))"
  shows "\<exists>rows. processData fetch solver server igc =
           Some \<lparr>returned = Inr rows, igc_after = igc,
                 requests = request_urls server (igc_fixes igc) (batch_count (length (igc_fixes igc))),
                 solver_inputs = map (prefix_log igc) [0..<chunk_count (length (igc_fixes igc))]\<rparr>
         \<and> length rows = length (igc_fixes igc)
         \<and> (\<forall>i<length (igc_fixes igc). rows ! i =
               \<lparr>row_time = time (igc_fixes igc ! i), gpsAlt = gpsAltitude (igc_fixes igc ! i),
                groundElev = index_opt (lookup_result fetch server (igc_fixes igc)) i,
                xc = fst (S (i div CHUNK_SIZE)), avgSpeed = snd (S (i div CHUNK_SIZE))\<rparr>)"
proof -
  let ?els = "lookup_result fetch server (igc_fixes igc)"
  let ?rows = "concat (map (\<lambda>k. chunk_rows ?els (k * CHUNK_SIZE) (fst (S k)) (snd (S k))
                                    (chunk_of (igc_fixes igc) k)) [0..<chunk_count (length (igc_fixes igc))])"
  have loop: "processData_loop solver ?els (igc_fixes igc) (timestamp (igc_fixes igc ! 0))
           (0 * CHUNK_SIZE) (state_before igc 0) [] [] =
         Some (Inr ([] @ ?rows), igc, [] @ map (prefix_log igc) [0..<chunk_count (length (igc_fixes igc))])"
    using sc by (intro processData_loop_scores) simp
  have "processData fetch solver server igc =
           Some \<lparr>returned = Inr ?rows, igc_after = igc,
                 requests = request_urls server (igc_fixes igc) (batch_count (length (igc_fixes igc))),
                 solver_inputs = map (prefix_log igc) [0..<chunk_count (length (igc_fixes igc))]\<rparr>"
    using ne loop
    by (simp add: processData_def getGroundElevations_returns [OF rd] state_before_0 Let_def)
  moreover have "length ?rows = length (igc_fixes igc)"
    by (rule chunk_rows_concat(1))
  moreover have "\<forall>i<length (igc_fixes igc). ?rows ! i =
               \<lparr>row_time = time (igc_fixes igc ! i), gpsAlt = gpsAltitude (igc_fixes igc ! i),
                groundElev = index_opt ?els i,
                xc = fst (S (i div CHUNK_SIZE)), avgSpeed = snd (S (i div CHUNK_SIZE))\<rparr>"
    by (simp add: chunk_rows_concat(2))
  ultimately show ?thesis by blast
qed

section \<open>Runs with a solver that converges\<close>

lemma reports_success_readable: "reports_success r \<Longrightarrow> readable r"
  by (auto simp: reports_success_def readable_def split: option.splits)

lemma first_optimalI:
  assumes "candidates k = Some c" and "optimal c"
    and "\<forall>j<k. \<exists>c'. candidates j = Some c' \<and> \<not> optimal c'"
  shows "first_optimal candidates c"
  using assms unfolding first_optimal_def by blast

text \<open>With a solver that converges every chunk gets the score of its first optimal candidate.\<close>

lemma solver_converges_scores:
  assumes "solver_converges solver igc"
  shows "\<exists>S. \<forall>k<chunk_count (length (igc_fixes igc)).
           chunk_score solver igc k = Some (Inr (S k)) \<and>
           (\<exists>c info. first_optimal (solver (prefix_log igc k)) c \<and> scoreInfo c = Some info \<and>
              S k = (xc_text c info,
                     divide_number (distance info)
                       ((timestamp (igc_fixes igc ! chunk_last (length (igc_fixes igc)) k)
                         - timestamp (igc_fixes igc ! 0)) / 3600000)))"
proof -
  define S where "S k = (case chunk_score solver igc k of Some (Inr v) \<Rightarrow> v)" for k
  have "chunk_score solver igc k = Some (Inr (S k)) \<and>
           (\<exists>c info. first_optimal (solver (prefix_log igc k)) c \<and> scoreInfo c = Some info \<and>
              S k = (xc_text c info,
                     divide_number (distance info)
                       ((timestamp (igc_fixes igc ! chunk_last (length (igc_fixes igc)) k)
                         - timestamp (igc_fixes igc ! 0)) / 3600000)))"
    if "k < chunk_count (length (igc_fixes igc))" for k
  proof -
    from assms that obtain c info where c: "first_optimal (solver (prefix_log igc k)) c"
        "scoreInfo c = Some info"
      unfolding solver_converges_def by fastforce
    then have sc: "chunk_score solver igc k =
        Some (Inr (xc_text c info,
                   divide_number (distance info)
                     ((timestamp (igc_fixes igc ! chunk_last (length (igc_fixes igc)) k)
                       - timestamp (igc_fixes igc ! 0)) / 3600000)))"
      unfolding chunk_score_def by (rule solve_loop_first_optimal)
    then have "S k = (xc_text c info,
                   divide_number (distance info)
                     ((timestamp (igc_fixes igc ! chunk_last (length (igc_fixes igc)) k)
                       - timestamp (igc_fixes igc ! 0)) / 3600000))"
      by (simp add: S_def)
    with sc c show ?thesis by auto
  qed
  then show ?thesis by blast
qed

text \<open>The example solver converges, on any log, and the example server reports success.\<close>

lemma example_solver_first_optimal: "first_optimal (example_solver igc) (example_solution True)"
  by (rule first_optimalI [where k = 1]) (simp_all add: example_solver_def example_solution_def)

lemma example_solver_converges: "solver_converges example_solver igc"
proof -
  have "first_optimal (example_solver (prefix_log igc k)) (example_solution True) \<and>
        scoreInfo (example_solution True) \<noteq> None" for k
    using example_solver_first_optimal by (simp add: example_solution_def)
  then show ?thesis unfolding solver_converges_def by blast
qed

lemma fetch_ok_reports_success: "reports_success (response_to (fetch_ok m) server fxs k)"
  by (simp add: response_to_def fetch_ok_def response_200_def reports_success_def ok_def
      startsWith_def)

section \<open>Batches and positions\<close>

lemma batch_count_ceiling: "batch_count N = nat \<lceil>real N / 100\<rceil>"
proof -
  define q where "q = (N + 99) div 100"
  have "q * 100 \<le> N + 99"
    unfolding q_def by (rule div_times_less_eq_dividend)
  then have "q * 100 < N + 100" by simp
  then have "real (q * 100) < real (N + 100)"
    by (simp only: of_nat_less_iff)
  then have lo: "real q * 100 < real N + 100"
    by simp
  have "N + 99 < 100 + q * 100"
    unfolding q_def by (rule dividend_less_div_times) simp
  then have "N \<le> q * 100" by simp
  then have "real N \<le> real (q * 100)"
    by (simp only: of_nat_le_iff)
  then have hi: "real N \<le> real q * 100"
    by simp
  have "\<lceil>real N / 100\<rceil> = int q"
  proof (rule ceiling_unique)
    show "of_int (int q) - 1 < real N / 100" using lo by simp
    show "real N / 100 \<le> of_int (int q)" using hi by simp
  qed
  then show ?thesis
    by (simp add: batch_count_def ELEVATION_CHUNK_SIZE_def q_def)
qed

lemma ELEVATION_CHUNK_SIZE_pos: "0 < ELEVATION_CHUNK_SIZE"
  by (simp add: ELEVATION_CHUNK_SIZE_def)

lemma batch_count_cover: "N \<le> batch_count N * ELEVATION_CHUNK_SIZE"
  using batch_count_less [of "batch_count N" N] by simp

text \<open>The batches are consecutive pieces of the coordinates: together they are the input.\<close>

lemma concat_batches: "concat (map (batch fxs) [0..<batch_count (length fxs)]) = fxs"
proof -
  let ?n = "batch_count (length fxs)"
  have al: "length (concat (map (batch fxs) [0..<?n])) = min (?n * ELEVATION_CHUNK_SIZE) (length fxs) \<and>
      (\<forall>p<min (?n * ELEVATION_CHUNK_SIZE) (length fxs).
         concat (map (batch fxs) [0..<?n]) ! p
           = batch fxs (p div ELEVATION_CHUNK_SIZE) ! (p mod ELEVATION_CHUNK_SIZE))"
    by (rule concat_aligned [OF ELEVATION_CHUNK_SIZE_pos _ batch_count_bound])
       (simp add: length_batch)
  have mn: "min (?n * ELEVATION_CHUNK_SIZE) (length fxs) = length fxs"
    using batch_count_cover [of "length fxs"] by simp
  show ?thesis
  proof (rule nth_equalityI)
    show "length (concat (map (batch fxs) [0..<?n])) = length fxs"
      using al unfolding mn by blast
  next
    fix p assume "p < length (concat (map (batch fxs) [0..<?n]))"
    with al have p: "p < length fxs" unfolding mn by simp
    with al have "concat (map (batch fxs) [0..<?n]) ! p
        = batch fxs (p div ELEVATION_CHUNK_SIZE) ! (p mod ELEVATION_CHUNK_SIZE)"
      unfolding mn by blast
    also have "\<dots> = fxs ! (p div ELEVATION_CHUNK_SIZE * ELEVATION_CHUNK_SIZE + p mod ELEVATION_CHUNK_SIZE)"
    proof -
      have "p div ELEVATION_CHUNK_SIZE * ELEVATION_CHUNK_SIZE \<le> p"
        by (rule div_times_less_eq_dividend)
      then have "p div ELEVATION_CHUNK_SIZE * ELEVATION_CHUNK_SIZE \<le> length fxs"
        using less_imp_le [OF p] by (rule le_trans)
      then show ?thesis
        using ELEVATION_CHUNK_SIZE_pos by (simp add: batch_def)
    qed
    finally show "concat (map (batch fxs) [0..<?n]) ! p = fxs ! p"
      by simp
  qed
qed

text \<open>
  When every response reports success and has one result for each coordinate of its batch,
  the result of the lookup has one elevation for each coordinate, at its position.
\<close>

lemma lookup_result_aligned:
  assumes "\<forall>k<batch_count (length fxs).
             reports_success (response_to fetch server fxs k) \<and>
             length (elevations_in (response_to fetch server fxs k)) = length (batch fxs k)"
  shows "length (lookup_result fetch server fxs) = length fxs \<and>
         (\<forall>p<length fxs. lookup_result fetch server fxs ! p =
            elevations_in (response_to fetch server fxs (p div ELEVATION_CHUNK_SIZE))
              ! (p mod ELEVATION_CHUNK_SIZE))"
proof -
  let ?n = "batch_count (length fxs)"
  let ?f = "\<lambda>k. contribution (response_to fetch server fxs k)"
  have al: "length (concat (map ?f [0..<?n])) = min (?n * ELEVATION_CHUNK_SIZE) (length fxs) \<and>
      (\<forall>p<min (?n * ELEVATION_CHUNK_SIZE) (length fxs).
         concat (map ?f [0..<?n]) ! p = ?f (p div ELEVATION_CHUNK_SIZE) ! (p mod ELEVATION_CHUNK_SIZE))"
    by (rule concat_aligned [OF ELEVATION_CHUNK_SIZE_pos _ batch_count_bound])
       (use assms in \<open>simp add: contribution_def length_batch batch_count_less\<close>)
  have mn: "min (?n * ELEVATION_CHUNK_SIZE) (length fxs) = length fxs"
    using batch_count_cover [of "length fxs"] by simp
  have "?f (p div ELEVATION_CHUNK_SIZE) = elevations_in (response_to fetch server fxs (p div ELEVATION_CHUNK_SIZE))"
    if "p < length fxs" for p
  proof -
    have "p div ELEVATION_CHUNK_SIZE * ELEVATION_CHUNK_SIZE \<le> p"
      by (rule div_times_less_eq_dividend)
    then have "p div ELEVATION_CHUNK_SIZE * ELEVATION_CHUNK_SIZE < length fxs"
      using that by (rule le_less_trans)
    then have "p div ELEVATION_CHUNK_SIZE < ?n"
      by (simp add: batch_count_less)
    with assms show ?thesis by (simp add: contribution_def)
  qed
  with al show ?thesis
    unfolding mn lookup_result_def by simp
qed

text \<open>
  A lookup in which one batch is answered with a status field that is not OK, every other
  batch with one result for each coordinate: the result of the lookup is the aligned
  result with the elevations of that batch cut out.
\<close>

lemma lookup_result_one_bad:
  assumes k: "k < batch_count (length fxs)"
    and bad: "\<not> reports_success (response_to fetch server fxs k)"
    and others: "\<forall>j<batch_count (length fxs). j \<noteq> k \<longrightarrow>
        reports_success (response_to fetch server fxs j) \<and>
        length (elevations_in (response_to fetch server fxs j)) = length (batch fxs j)"
  shows "\<exists>F. length F = length fxs \<and>
           (\<forall>p<length fxs. p div ELEVATION_CHUNK_SIZE \<noteq> k \<longrightarrow>
              F ! p = elevations_in (response_to fetch server fxs (p div ELEVATION_CHUNK_SIZE))
                        ! (p mod ELEVATION_CHUNK_SIZE)) \<and>
           lookup_result fetch server fxs =
             take (k * ELEVATION_CHUNK_SIZE) F @
             drop (k * ELEVATION_CHUNK_SIZE + length (batch fxs k)) F"
proof -
  let ?n = "batch_count (length fxs)"
  let ?c = "ELEVATION_CHUNK_SIZE"
  let ?g = "\<lambda>j. contribution (response_to fetch server fxs j)"
  define h where "h j = (if j = k then replicate (length (batch fxs k)) 0
                         else elevations_in (response_to fetch server fxs j))" for j
  define F where "F = concat (map h [0..<?n])"
  have hl: "\<forall>j. j * ?c < length fxs \<longrightarrow> length (h j) = min ?c (length fxs - j * ?c)"
    using others by (simp add: h_def length_batch batch_count_less)
  have gh: "?g j = h j" if "j < ?n" "j \<noteq> k" for j
    using that others by (simp add: h_def contribution_def)
  have gk: "?g k = []"
    using bad by (simp add: contribution_def)
  have split: "[0..<?n] = [0..<k] @ k # [Suc k..<?n]"
    using k by (metis le_add1 less_imp_add_positive upt_add_eq_append upt_conv_Cons zero_le
        add.left_neutral less_or_eq_imp_le)
  have A: "map ?g [0..<k] = map h [0..<k]"
    using k by (intro map_cong refl gh) auto
  have B: "map ?g [Suc k..<?n] = map h [Suc k..<?n]"
    by (intro map_cong refl gh) auto
  have alk: "length (concat (map h [0..<k])) = min (k * ?c) (length fxs)"
    using concat_aligned [OF ELEVATION_CHUNK_SIZE_pos hl, of k] k
    by (simp add: batch_count_less)
  then have lenA: "length (concat (map h [0..<k])) = k * ?c"
    using k by (simp add: batch_count_less)
  have al: "length F = min (?n * ?c) (length fxs) \<and>
      (\<forall>p<min (?n * ?c) (length fxs). F ! p = h (p div ?c) ! (p mod ?c))"
    unfolding F_def by (rule concat_aligned [OF ELEVATION_CHUNK_SIZE_pos hl batch_count_bound])
  have mn: "min (?n * ?c) (length fxs) = length fxs"
    using batch_count_cover [of "length fxs"] by simp
  have 1: "length F = length fxs"
    using al unfolding mn by blast
  have 2: "\<forall>p<length fxs. p div ?c \<noteq> k \<longrightarrow>
      F ! p = elevations_in (response_to fetch server fxs (p div ?c)) ! (p mod ?c)"
    using al unfolding mn by (simp add: h_def)
  have Fs: "F = concat (map h [0..<k]) @ h k @ concat (map h [Suc k..<?n])"
    unfolding F_def by (subst split) simp
  have "lookup_result fetch server fxs = concat (map h [0..<k]) @ concat (map h [Suc k..<?n])"
    unfolding lookup_result_def by (subst split) (simp add: A B gk)
  also have "\<dots> = take (k * ?c) F @ drop (k * ?c + length (batch fxs k)) F"
    unfolding Fs using lenA by (simp add: h_def)
  finally have 3: "lookup_result fetch server fxs =
      take (k * ?c) F @ drop (k * ?c + length (batch fxs k)) F" .
  from 1 2 3 show ?thesis by blast
qed

section \<open>Runs that return\<close>

lemma getGroundElevations_empty:
  assumes "igc_fixes igc = []"
  shows "getGroundElevations fetch server igc = (Inr [], [])"
  using assms by (simp add: getGroundElevations_def getGroundElevations_loop.simps)

lemma chunk_count_0: "chunk_count 0 = 0"
  by (simp add: chunk_count_def CHUNK_SIZE_def)

text \<open>A call of \<^const>\<open>processData\<close> that returns rows leaves the log as it found it.\<close>

lemma processData_returns_restores:
  assumes "processData fetch solver server igc = Some out" and "returned out = Inr rows"
  shows "igc_after out = igc \<and>
         solver_inputs out = map (prefix_log igc) [0..<chunk_count (length (igc_fixes igc))]"
proof (cases "getGroundElevations fetch server igc")
  case (Pair r reqs)
  show ?thesis
  proof (cases r)
    case (Inl e)
    with Pair assms show ?thesis by (auto simp: processData_def)
  next
    case (Inr elevations)
    show ?thesis
    proof (cases "igc_fixes igc = []")
      case True
      with Pair Inr assms show ?thesis by (auto simp: processData_def chunk_count_0)
    next
      case False
      with Pair Inr assms obtain igc' calls where
        loop: "processData_loop solver elevations (igc_fixes igc) (timestamp (igc_fixes igc ! 0))
                 (0 * CHUNK_SIZE) (state_before igc 0) [] [] = Some (Inr rows, igc', calls)"
        and out: "igc_after out = igc'" "solver_inputs out = calls"
        by (auto simp: processData_def Let_def state_before_0 split: option.splits)
      from processData_loop_restores [OF loop] out show ?thesis by simp
    qed
  qed
qed

text \<open>The example solver scores every chunk as a flat triangle of 8 km net.\<close>

lemma example_xc_text:
  "xc_text (example_solution True) \<lparr>distance = 10, penalty = Some 2\<rparr> = ''flat 8 km''"
  by (simp add: xc_text_def example_solution_def getRouteType_def toFixed_eval)

lemma example_chunk_score:
  "chunk_score example_solver igc k =
   Some (Inr (''flat 8 km'',
              divide_number 10
                ((timestamp (igc_fixes igc ! chunk_last (length (igc_fixes igc)) k)
                  - timestamp (igc_fixes igc ! 0)) / 3600000)))"
proof -
  have "scoreInfo (example_solution True) = Some \<lparr>distance = 10, penalty = Some 2\<rparr>"
    by (simp add: example_solution_def)
  from solve_loop_first_optimal [OF example_solver_first_optimal this]
  show ?thesis by (simp add: chunk_score_def example_xc_text)
qed

text \<open>The run of \<^const>\<open>processData\<close> on the example log of 150 fixes.\<close>

lemma example_run_150:
  "\<exists>rows. processData (fetch_ok 100) example_solver ''srv'' (example_log 150) =
     Some \<lparr>returned = Inr rows, igc_after = example_log 150,
        requests = request_urls ''srv'' (igc_fixes (example_log 150)) (batch_count 150),
        solver_inputs = map (prefix_log (example_log 150)) [0..<chunk_count 150]\<rparr>"
proof -
  have ne: "igc_fixes (example_log 150) \<noteq> []"
    by (simp add: example_log_def)
  have rd: "\<forall>k<batch_count (length (igc_fixes (example_log 150))).
      readable (response_to (fetch_ok 100) ''srv'' (igc_fixes (example_log 150)) k)"
    by (simp add: fetch_ok_reports_success reports_success_readable)
  from solver_converges_scores [OF example_solver_converges, of "example_log 150"] obtain S where
    "\<forall>k<chunk_count (length (igc_fixes (example_log 150))).
        chunk_score example_solver (example_log 150) k = Some (Inr (S k))"
    by blast
  from processData_scored [OF ne rd this] show ?thesis
    by (auto simp: example_log_def)
qed

lemma upt_0_3: "[0..<3] = [0, 1, 2]"
  by (simp add: eval_nat_numeral)

lemma chunk_index:
  assumes "k * CHUNK_SIZE \<le> i" and "i < (k + 1) * CHUNK_SIZE"
  shows "i div CHUNK_SIZE = k"
  using assms by (intro div_nat_eqI) (simp_all add: mult.commute)

lemma example_solver_unique:
  assumes "first_optimal (example_solver igc) c"
  shows "c = example_solution True"
proof -
  from assms obtain k where "example_solver igc k = Some c" "optimal c"
    unfolding first_optimal_def by blast
  then show ?thesis
    by (cases "k = 0") (auto simp: example_solver_def example_solution_def)
qed

lemma upt_0_2: "[0..<2] = [0, 1]"
  by (simp add: eval_nat_numeral)

text \<open>The requests of a lookup over 150 coordinates: one for the first 100, one for the other 50.\<close>

lemma request_urls_150:
  assumes "length fxs = 150"
  shows "request_urls server fxs (batch_count (length fxs)) =
         [request_url server (take 100 fxs), request_url server (drop 100 fxs)]"
proof -
  have "batch_count (length fxs) = 2"
    using assms by (simp add: batch_count_def ELEVATION_CHUNK_SIZE_def)
  moreover have "batch fxs 0 = take 100 fxs"
    by (simp add: batch_def ELEVATION_CHUNK_SIZE_def)
  moreover have "batch fxs 1 = drop 100 fxs"
    using assms by (simp add: batch_def ELEVATION_CHUNK_SIZE_def)
  ultimately show ?thesis
    by (simp add: request_urls_def upt_0_2)
qed

lemma prefix_logs_150:
  assumes "length (igc_fixes igc) = 150"
  shows "map (prefix_log igc) [0..<chunk_count (length (igc_fixes igc))] =
         [igc\<lparr>igc_fixes := take 60 (igc_fixes igc)\<rparr>,
          igc\<lparr>igc_fixes := take 120 (igc_fixes igc)\<rparr>,
          igc]"
proof -
  have "chunk_count (length (igc_fixes igc)) = 3"
    using assms by (simp add: chunk_count_def CHUNK_SIZE_def)
  moreover have "prefix_log igc 2 = igc"
    using assms by (simp add: prefix_log_def CHUNK_SIZE_def)
  ultimately show ?thesis
    by (simp add: upt_0_3 prefix_log_def CHUNK_SIZE_def)
qed

section \<open>The example of two fixes one hour apart\<close>

lemma toFixed_47: "toFixed 5 47 = ''47.00000''"
  by (simp add: toFixed_eval)

lemma toFixed_11: "toFixed 5 11 = ''11.00000''"
  by (simp add: toFixed_eval)

lemma hour_url:
  "request_url ''srv'' [fix_at 0, fix_at 3600000] = ''srv?locations=47.00000, 11.00000|47.00000, 11.00000''"
  by (simp add: request_url_def locations_of_def fix_at_def toFixed_47 toFixed_11)

lemma hour_lookup:
  "getGroundElevations (fetch_ok 2) ''srv'' hour_log =
   (Inr [500, 500], [''srv?locations=47.00000, 11.00000|47.00000, 11.00000''])"
proof -
  have rd: "\<forall>k<batch_count (length (igc_fixes hour_log)).
      readable (response_to (fetch_ok 2) ''srv'' (igc_fixes hour_log) k)"
    by (simp add: fetch_ok_reports_success reports_success_readable)
  have n: "batch_count (length (igc_fixes hour_log)) = 1"
    by (simp add: batch_count_def hour_log_def ELEVATION_CHUNK_SIZE_def)
  have b: "batch (igc_fixes hour_log) 0 = [fix_at 0, fix_at 3600000]"
    by (simp add: batch_def hour_log_def ELEVATION_CHUNK_SIZE_def)
  have c: "contribution (response_to (fetch_ok 2) ''srv'' (igc_fixes hour_log) 0) = [500, 500]"
    by (simp add: contribution_def fetch_ok_reports_success elevations_in_def response_to_def
        fetch_ok_def response_200_def example_row_def replicate_numeral_eval
        reports_success_def ok_def startsWith_def)
  show ?thesis
    unfolding getGroundElevations_returns [OF rd] lookup_result_def request_urls_def n
    by (simp add: b c hour_url)
qed

lemma hour_score:
  "chunk_score example_solver hour_log 0 = Some (Inr (''flat 8 km'', Finite 10))"
  by (simp add: example_chunk_score hour_log_def chunk_last_def CHUNK_SIZE_def fix_at_def
      divide_number_def)

lemma hour_lookup_result: "lookup_result (fetch_ok 2) ''srv'' (igc_fixes hour_log) = [500, 500]"
  using hour_lookup getGroundElevations_returns [of hour_log "fetch_ok 2" "''srv''"]
  by (simp add: fetch_ok_reports_success reports_success_readable)

lemma list_of_two:
  assumes "length xs = 2"
  shows "xs = [xs ! 0, xs ! 1]"
proof -
  from assms obtain a b where "xs = [a, b]"
    by (auto simp: numeral_2_eq_2 length_Suc_conv)
  then show ?thesis by simp
qed

text \<open>The run of \<^const>\<open>processData\<close> on the log of two fixes one hour apart.\<close>

lemma hour_run:
  "processData (fetch_ok 2) example_solver ''srv'' hour_log =
     Some \<lparr>returned =
             Inr [\<lparr>row_time = ''12:00:00'', gpsAlt = 1500, groundElev = Some 500,
                   xc = ''flat 8 km'', avgSpeed = Finite 10\<rparr>,
                  \<lparr>row_time = ''12:00:00'', gpsAlt = 1500, groundElev = Some 500,
                   xc = ''flat 8 km'', avgSpeed = Finite 10\<rparr>],
           igc_after = hour_log,
           requests = [''srv?locations=47.00000, 11.00000|47.00000, 11.00000''],
           solver_inputs = [hour_log]\<rparr>"
proof -
  have ne: "igc_fixes hour_log \<noteq> []"
    by (simp add: hour_log_def)
  have rd: "\<forall>k<batch_count (length (igc_fixes hour_log)).
      readable (response_to (fetch_ok 2) ''srv'' (igc_fixes hour_log) k)"
    by (simp add: fetch_ok_reports_success reports_success_readable)
  have n: "chunk_count (length (igc_fixes hour_log)) = 1"
    by (simp add: chunk_count_def hour_log_def CHUNK_SIZE_def)
  have sc: "\<forall>k<chunk_count (length (igc_fixes hour_log)).
      chunk_score example_solver hour_log k = Some (Inr (''flat 8 km'', Finite 10))"
    by (simp add: n hour_score)
  have p: "prefix_log hour_log 0 = hour_log"
    by (simp add: prefix_log_def hour_log_def CHUNK_SIZE_def)
  from processData_scored [OF ne rd sc] obtain rows where
    run: "processData (fetch_ok 2) example_solver ''srv'' hour_log =
       Some \<lparr>returned = Inr rows, igc_after = hour_log,
             requests = request_urls ''srv'' (igc_fixes hour_log) (batch_count (length (igc_fixes hour_log))),
             solver_inputs = map (prefix_log hour_log) [0..<chunk_count (length (igc_fixes hour_log))]\<rparr>"
    and len: "length rows = length (igc_fixes hour_log)"
    and row: "\<forall>i<length (igc_fixes hour_log). rows ! i =
               \<lparr>row_time = time (igc_fixes hour_log ! i), gpsAlt = gpsAltitude (igc_fixes hour_log ! i),
                groundElev = index_opt (lookup_result (fetch_ok 2) ''srv'' (igc_fixes hour_log)) i,
                xc = ''flat 8 km'', avgSpeed = Finite 10\<rparr>"
    by auto
  from len have "rows = [rows ! 0, rows ! 1]"
    by (intro list_of_two) (simp add: hour_log_def)
  moreover from row have "rows ! 0 = \<lparr>row_time = ''12:00:00'', gpsAlt = 1500, groundElev = Some 500,
                   xc = ''flat 8 km'', avgSpeed = Finite 10\<rparr>"
    by (simp add: hour_lookup_result index_opt_def) (simp add: hour_log_def fix_at_def)
  moreover from row have "rows ! 1 = \<lparr>row_time = ''12:00:00'', gpsAlt = 1500, groundElev = Some 500,
                   xc = ''flat 8 km'', avgSpeed = Finite 10\<rparr>"
    by (simp add: hour_lookup_result index_opt_def) (simp add: hour_log_def fix_at_def)
  ultimately have "rows = [\<lparr>row_time = ''12:00:00'', gpsAlt = 1500, groundElev = Some 500,
                   xc = ''flat 8 km'', avgSpeed = Finite 10\<rparr>,
                  \<lparr>row_time = ''12:00:00'', gpsAlt = 1500, groundElev = Some 500,
                   xc = ''flat 8 km'', avgSpeed = Finite 10\<rparr>]"
    by simp
  moreover have "request_urls ''srv'' (igc_fixes hour_log) (batch_count (length (igc_fixes hour_log)))
      = [''srv?locations=47.00000, 11.00000|47.00000, 11.00000'']"
    using hour_lookup getGroundElevations_returns [OF rd] by simp
  ultimately show ?thesis
    using run by (simp add: n p)
qed

section \<open>Runs that throw\<close>

text \<open>A lookup with a response that is not readable throws, at the first such response.\<close>

lemma getGroundElevations_unreadable:
  assumes "k < batch_count (length (igc_fixes igc))"
    and "\<not> readable (response_to fetch server (igc_fixes igc) k)"
  shows "\<exists>m\<le>k. \<not> readable (response_to fetch server (igc_fixes igc) m) \<and>
           (\<forall>j<m. readable (response_to fetch server (igc_fixes igc) j)) \<and>
           getGroundElevations fetch server igc =
             (Inl (error_of (response_to fetch server (igc_fixes igc) m)),
              request_urls server (igc_fixes igc) (Suc m))"
proof -
  from first_unreadable_exists [of k _ "response_to fetch server (igc_fixes igc)", OF assms]
  obtain m where
    m: "m \<le> k" "\<not> readable (response_to fetch server (igc_fixes igc) m)"
      "\<forall>j<m. readable (response_to fetch server (igc_fixes igc) j)"
    by blast
  from m(1) assms(1) have "m < batch_count (length (igc_fixes igc))" by simp
  from getGroundElevations_throws [OF this m(2,3)] m show ?thesis by blast
qed

text \<open>\<^const>\<open>processData\<close> passes on what the lookup throws, before it touches the log or the solver.\<close>

lemma processData_lookup_throws:
  assumes "getGroundElevations fetch server igc = (Inl e, reqs)"
  shows "processData fetch solver server igc =
         Some \<lparr>returned = Inl e, igc_after = igc, requests = reqs, solver_inputs = []\<rparr>"
  using assms by (simp add: processData_def)

text \<open>\<^const>\<open>run\<close> changes the file system only after \<^const>\<open>processData\<close> has returned its rows.\<close>

lemma run_writes_after_processData:
  assumes "run env inputPath files = Some (r, files')" and "files' \<noteq> files"
  shows "\<exists>sourceIgc igcString igc out rows.
           env_realpath env inputPath = Some sourceIgc \<and> files sourceIgc = Some igcString \<and>
           env_parse env igcString = Some igc \<and>
           processData (env_fetch env) (env_solver env) ELEVATION_SERVER_URL igc = Some out \<and>
           returned out = Inr rows"
  using assms
  by (auto simp: run_def split: if_splits option.splits sum.splits)

section \<open>Runs with a solver that gives no score\<close>

text \<open>The run of \<^const>\<open>processData\<close> with a solver whose optimal candidate has no score.\<close>

lemma bare_solver_first_optimal: "first_optimal (bare_solver igc) bare_solution"
  by (rule first_optimalI [where k = 0]) (simp_all add: bare_solver_def bare_solution_def)

lemma bare_chunk_score: "chunk_score bare_solver igc k = Some (Inl TypeError)"
  unfolding chunk_score_def
  by (subst solve_loop.simps) (simp add: bare_solver_def bare_solution_def)

lemma bare_run:
  "processData (fetch_ok 2) bare_solver ''srv'' hour_log =
     Some \<lparr>returned = Inl TypeError, igc_after = hour_log,
           requests = [''srv?locations=47.00000, 11.00000|47.00000, 11.00000''],
           solver_inputs = [hour_log]\<rparr>"
proof -
  have n: "0 < chunk_count (length (igc_fixes hour_log))"
    by (simp add: chunk_count_def hour_log_def CHUNK_SIZE_def)
  have p: "prefix_log hour_log 0 = hour_log"
    by (simp add: prefix_log_def hour_log_def CHUNK_SIZE_def)
  have ne: "igc_fixes hour_log \<noteq> []"
    by (simp add: hour_log_def)
  have "processData_loop bare_solver [500, 500] (igc_fixes hour_log)
          (timestamp (igc_fixes hour_log ! 0)) (0 * CHUNK_SIZE) (state_before hour_log 0) [] []
        = Some (Inl TypeError, hour_log, [hour_log])"
    using processData_loop_step [OF n, of bare_solver "[500, 500]" "[]" "[]"]
    by (simp add: bare_chunk_score p)
  with ne show ?thesis
    by (simp add: processData_def hour_lookup state_before_0 Let_def)
qed

lemma timed_fix_times:
  "time (timed_fix 0) = ''12:00:00''" "time (timed_fix 59) = ''12:00:59''"
  "time (timed_fix 60) = ''12:01:00''" "time (timed_fix 100) = ''12:01:40''"
  "time (timed_fix 149) = ''12:02:29''"
  by (simp_all add: timed_fix_def two_digits_def nat_to_string_small nat_to_string_large
      digit_char_def)

section \<open>The claims\<close>

text \<open>
  C1, as amended. For a track with at least one fix, a lookup whose batches all report
  success and a solver that ends, on every prefix, with an optimal candidate that carries
  its \<^verbatim>\<open>scoreInfo\<close>, \<^const>\<open>processData\<close> returns one row per fix, the \<open>i\<close>-th row carrying
  the time of the \<open>i\<close>-th fix.
\<close>

theorem processData_one_row_per_fix:
  assumes "igc_fixes igc \<noteq> []"
    and "\<forall>k<batch_count (length (igc_fixes igc)).
           reports_success (response_to fetch server (igc_fixes igc) k)"
    and "solver_converges solver igc"
  shows "\<exists>out rows. processData fetch solver server igc = Some out \<and> returned out = Inr rows \<and>
           length rows = length (igc_fixes igc) \<and>
           (\<forall>i<length (igc_fixes igc). row_time (rows ! i) = time (igc_fixes igc ! i))"
proof -
  from assms(2) have rd: "\<forall>k<batch_count (length (igc_fixes igc)).
      readable (response_to fetch server (igc_fixes igc) k)"
    by (simp add: reports_success_readable)
  from solver_converges_scores [OF assms(3)] obtain S where
    "\<forall>k<chunk_count (length (igc_fixes igc)). chunk_score solver igc k = Some (Inr (S k))"
    by blast
  from processData_scored [OF assms(1) rd this] obtain rows where
    "processData fetch solver server igc =
       Some \<lparr>returned = Inr rows, igc_after = igc,
             requests = request_urls server (igc_fixes igc) (batch_count (length (igc_fixes igc))),
             solver_inputs = map (prefix_log igc) [0..<chunk_count (length (igc_fixes igc))]\<rparr>"
    "length rows = length (igc_fixes igc)"
    "\<forall>i<length (igc_fixes igc). rows ! i =
               \<lparr>row_time = time (igc_fixes igc ! i), gpsAlt = gpsAltitude (igc_fixes igc ! i),
                groundElev = index_opt (lookup_result fetch server (igc_fixes igc)) i,
                xc = fst (S (i div CHUNK_SIZE)), avgSpeed = snd (S (i div CHUNK_SIZE))\<rparr>"
    by blast
  then show ?thesis by simp
qed

theorem processData_one_row_per_fix_witness:
  "\<exists>out rows. processData (fetch_ok 100) example_solver ''srv'' (timed_log 150) = Some out \<and>
     returned out = Inr rows \<and> length rows = 150 \<and>
     row_time (rows ! 0) = ''12:00:00'' \<and> row_time (rows ! 59) = ''12:00:59'' \<and>
     row_time (rows ! 60) = ''12:01:00'' \<and> row_time (rows ! 100) = ''12:01:40'' \<and>
     row_time (rows ! 149) = ''12:02:29''"
proof -
  have ne: "igc_fixes (timed_log 150) \<noteq> []"
    by (simp add: timed_log_def)
  have ok: "\<forall>k<batch_count (length (igc_fixes (timed_log 150))).
      reports_success (response_to (fetch_ok 100) ''srv'' (igc_fixes (timed_log 150)) k)"
    by (simp add: fetch_ok_reports_success)
  from processData_one_row_per_fix [OF ne ok example_solver_converges] obtain out rows where
    run: "processData (fetch_ok 100) example_solver ''srv'' (timed_log 150) = Some out"
      "returned out = Inr rows" "length rows = length (igc_fixes (timed_log 150))"
    and t: "\<forall>i<length (igc_fixes (timed_log 150)).
        row_time (rows ! i) = time (igc_fixes (timed_log 150) ! i)"
    by blast
  have N: "length (igc_fixes (timed_log 150)) = 150"
    by (simp add: timed_log_def)
  have f: "igc_fixes (timed_log 150) ! i = timed_fix i" if "i < 150" for i
    using that by (simp add: timed_log_def)
  from t have "row_time (rows ! 0) = ''12:00:00''" "row_time (rows ! 59) = ''12:00:59''"
    "row_time (rows ! 60) = ''12:01:00''" "row_time (rows ! 100) = ''12:01:40''"
    "row_time (rows ! 149) = ''12:02:29''"
    by (simp_all add: N f timed_fix_times)
  with run N show ?thesis by auto
qed

text \<open>
  C1, as stated, fails: on a log of two fixes, with a server that reports success and a
  solver whose first candidate is optimal and has no score, \<^const>\<open>processData\<close> ends with
  a type error and returns no rows.
\<close>

theorem processData_one_row_per_fix_counterexample:
  "igc_fixes hour_log \<noteq> []
   \<and> batch_count (length (igc_fixes hour_log)) = 1
   \<and> reports_success (response_to (fetch_ok 2) ''srv'' (igc_fixes hour_log) 0)
   \<and> chunk_count (length (igc_fixes hour_log)) = 1
   \<and> prefix_log hour_log 0 = hour_log
   \<and> bare_solver hour_log 0 = Some bare_solution \<and> optimal bare_solution
   \<and> first_optimal (bare_solver hour_log) bare_solution
   \<and> processData (fetch_ok 2) bare_solver ''srv'' hour_log =
       Some \<lparr>returned = Inl TypeError, igc_after = hour_log,
             requests = [''srv?locations=47.00000, 11.00000|47.00000, 11.00000''],
             solver_inputs = [hour_log]\<rparr>"
proof -
  have "igc_fixes hour_log \<noteq> []"
    by (simp add: hour_log_def)
  moreover have "batch_count (length (igc_fixes hour_log)) = 1"
    by (simp add: batch_count_def hour_log_def ELEVATION_CHUNK_SIZE_def)
  moreover have "chunk_count (length (igc_fixes hour_log)) = 1"
    by (simp add: chunk_count_def hour_log_def CHUNK_SIZE_def)
  moreover have "prefix_log hour_log 0 = hour_log"
    by (simp add: prefix_log_def hour_log_def CHUNK_SIZE_def)
  moreover have "bare_solver hour_log 0 = Some bare_solution" "optimal bare_solution"
    by (simp_all add: bare_solver_def bare_solution_def)
  ultimately show ?thesis
    using fetch_ok_reports_success [of 2 "''srv''" "igc_fixes hour_log" 0]
      bare_solver_first_optimal [of hour_log] bare_run
    by simp
qed

text \<open>
  C2, as amended. A lookup over \<open>N\<close> coordinates whose responses can all be read returns,
  after exactly \<open>N / 100\<close> rounded up requests, one for each of the consecutive batches of
  at most 100 coordinates that make up the input. When moreover every response reports
  success and has as many results as its batch has coordinates, the result has length \<open>N\<close>
  and its \<open>p\<close>-th elevation is the one the server gave for the \<open>p\<close>-th coordinate.
\<close>

theorem lookup_in_batches:
  assumes "\<forall>k<batch_count (length (igc_fixes igc)).
             readable (response_to fetch server (igc_fixes igc) k)"
  shows "\<exists>els reqs. getGroundElevations fetch server igc = (Inr els, reqs) \<and>
           int (length reqs) = \<lceil>real (length (igc_fixes igc)) / 100\<rceil> \<and>
           reqs = map (\<lambda>k. request_url server (take 100 (drop (k * 100) (igc_fixes igc))))
                      [0..<length reqs] \<and>
           concat (map (\<lambda>k. take 100 (drop (k * 100) (igc_fixes igc))) [0..<length reqs])
             = igc_fixes igc \<and>
           ((\<forall>k<length reqs.
               reports_success (response_to fetch server (igc_fixes igc) k) \<and>
               length (elevations_in (response_to fetch server (igc_fixes igc) k))
                 = length (take 100 (drop (k * 100) (igc_fixes igc)))) \<longrightarrow>
            length els = length (igc_fixes igc) \<and>
            (\<forall>p<length (igc_fixes igc).
               els ! p = elevations_in (response_to fetch server (igc_fixes igc) (p div 100))
                           ! (p mod 100)))"
proof -
  let ?fxs = "igc_fixes igc"
  let ?n = "batch_count (length ?fxs)"
  define els where "els = lookup_result fetch server ?fxs"
  define reqs where "reqs = request_urls server ?fxs ?n"
  have b: "batch ?fxs k = take 100 (drop (k * 100) ?fxs)" for k
    by (simp add: batch_def ELEVATION_CHUNK_SIZE_def)
  have len: "length reqs = ?n"
    by (simp add: reqs_def request_urls_def)
  have 1: "getGroundElevations fetch server igc = (Inr els, reqs)"
    unfolding els_def reqs_def using assms by (rule getGroundElevations_returns)
  have 2: "int (length reqs) = \<lceil>real (length ?fxs) / 100\<rceil>"
    unfolding len by (simp add: batch_count_ceiling)
  have 3: "reqs = map (\<lambda>k. request_url server (take 100 (drop (k * 100) ?fxs))) [0..<length reqs]"
    unfolding len by (simp add: reqs_def request_urls_def b)
  have "batch ?fxs = (\<lambda>k. take 100 (drop (k * 100) ?fxs))"
    by (rule ext) (rule b)
  then have 4: "concat (map (\<lambda>k. take 100 (drop (k * 100) ?fxs)) [0..<length reqs]) = ?fxs"
    unfolding len using concat_batches [of ?fxs] by simp
  have 5: "length els = length ?fxs \<and>
            (\<forall>p<length ?fxs. els ! p = elevations_in (response_to fetch server ?fxs (p div 100)) ! (p mod 100))"
    if "\<forall>k<length reqs. reports_success (response_to fetch server ?fxs k) \<and>
               length (elevations_in (response_to fetch server ?fxs k))
                 = length (take 100 (drop (k * 100) ?fxs))"
  proof -
    from that have "\<forall>k<?n. reports_success (response_to fetch server ?fxs k) \<and>
         length (elevations_in (response_to fetch server ?fxs k)) = length (batch ?fxs k)"
      unfolding len b .
    from lookup_result_aligned [OF this] show ?thesis
      by (simp add: els_def ELEVATION_CHUNK_SIZE_def)
  qed
  from 5 have aligned: "(\<forall>k<length reqs. reports_success (response_to fetch server ?fxs k) \<and>
               length (elevations_in (response_to fetch server ?fxs k))
                 = length (take 100 (drop (k * 100) ?fxs))) \<longrightarrow>
          length els = length ?fxs \<and>
            (\<forall>p<length ?fxs. els ! p = elevations_in (response_to fetch server ?fxs (p div 100)) ! (p mod 100))"
    by blast
  show ?thesis
    by (intro exI [of _ els] exI [of _ reqs] conjI 1 2 3 4 aligned)
qed

theorem lookup_in_batches_witness:
  "\<exists>els reqs. getGroundElevations (fetch_invalid_at 9 1 50) ''srv'' (example_log 150) = (Inr els, reqs) \<and>
     length reqs = 2 \<and> length els = 150 \<and> els ! 20 = 1000 \<and> els ! 120 = 1001"
proof -
  let ?F = "fetch_invalid_at 9 1 50"
  let ?fxs = "igc_fixes (example_log 150)"
  have N: "length ?fxs = 150"
    by (simp add: example_log_def)
  have n: "batch_count (length ?fxs) = 2"
    by (simp add: N batch_count_def ELEVATION_CHUNK_SIZE_def)
  have rd: "\<forall>k<batch_count (length ?fxs). readable (response_to ?F ''srv'' ?fxs k)"
    unfolding n
    by (simp add: response_to_def fetch_invalid_at_def readable_def ok_def response_200_def)
  from lookup_in_batches [OF rd] obtain els reqs where
    run: "getGroundElevations ?F ''srv'' (example_log 150) = (Inr els, reqs)"
    and cnt: "int (length reqs) = \<lceil>real (length ?fxs) / 100\<rceil>"
    and al: "(\<forall>k<length reqs.
               reports_success (response_to ?F ''srv'' ?fxs k) \<and>
               length (elevations_in (response_to ?F ''srv'' ?fxs k))
                 = length (take 100 (drop (k * 100) ?fxs))) \<longrightarrow>
            length els = length ?fxs \<and>
            (\<forall>p<length ?fxs.
               els ! p = elevations_in (response_to ?F ''srv'' ?fxs (p div 100)) ! (p mod 100))"
    by blast
  from cnt have len: "length reqs = 2"
    by (simp add: N)
  have "\<forall>k<length reqs.
               reports_success (response_to ?F ''srv'' ?fxs k) \<and>
               length (elevations_in (response_to ?F ''srv'' ?fxs k))
                 = length (take 100 (drop (k * 100) ?fxs))"
    unfolding len
    by (auto simp: response_to_def fetch_invalid_at_def N reports_success_def ok_def
        response_200_def startsWith_def elevations_in_def)
  with al have "length els = length ?fxs" and
    "\<forall>p<length ?fxs. els ! p = elevations_in (response_to ?F ''srv'' ?fxs (p div 100)) ! (p mod 100)"
    by blast+
  then have "length els = 150" and "els ! 20 = 1000" and "els ! 120 = 1001"
    by (simp_all add: N response_to_def fetch_invalid_at_def elevations_in_def example_row_def)
  with run len show ?thesis by blast
qed

text \<open>
  C2, as stated, fails. A server that reports success with no results for the one
  coordinate of a track makes the lookup return no elevation; and a lookup over 150
  coordinates whose first request is answered with status 500 has sent one request, not two.
\<close>

theorem lookup_in_batches_counterexample:
  "reports_success (response_to (fetch_ok 0) ''srv'' (igc_fixes (example_log 1)) 0)
   \<and> \<lceil>real (length (igc_fixes (example_log 1))) / 100\<rceil> = 1
   \<and> getGroundElevations (fetch_ok 0) ''srv'' (example_log 1) =
       (Inr [], [''srv?locations=47.00000, 11.00000''])
   \<and> length (igc_fixes (example_log 1)) = 1
   \<and> getGroundElevations (fetch_500_at 0) ''srv'' (example_log 150) =
       (Inl (ServerReplies 500), [request_url ''srv'' (take 100 (igc_fixes (example_log 150)))])
   \<and> \<lceil>real (length (igc_fixes (example_log 150))) / 100\<rceil> = 2"
proof -
  let ?one = "igc_fixes (example_log 1)"
  have one: "?one = [fix_at 0]"
    by (simp add: example_log_def)
  have n1: "batch_count (length ?one) = 1"
    unfolding one by (simp add: batch_count_def ELEVATION_CHUNK_SIZE_def)
  have s1: "reports_success (response_to (fetch_ok 0) ''srv'' ?one 0)"
    by (rule fetch_ok_reports_success)
  have rd: "\<forall>k<batch_count (length ?one). readable (response_to (fetch_ok 0) ''srv'' ?one k)"
    by (simp add: fetch_ok_reports_success reports_success_readable)
  have c1: "\<lceil>real (length ?one) / 100\<rceil> = 1"
    unfolding one by (intro ceiling_unique) simp_all
  have "request_url ''srv'' (batch ?one 0) = ''srv?locations=47.00000, 11.00000''"
    unfolding one
    by (simp add: batch_def ELEVATION_CHUNK_SIZE_def request_url_def locations_of_def fix_at_def
        toFixed_47 toFixed_11)
  moreover have "contribution (response_to (fetch_ok 0) ''srv'' ?one 0) = []"
    by (simp add: contribution_def elevations_in_def response_to_def fetch_ok_def response_200_def)
  ultimately have g1: "getGroundElevations (fetch_ok 0) ''srv'' (example_log 1) =
       (Inr [], [''srv?locations=47.00000, 11.00000''])"
    unfolding getGroundElevations_returns [OF rd] lookup_result_def request_urls_def n1
    by simp
  let ?fxs = "igc_fixes (example_log 150)"
  have N: "length ?fxs = 150"
    by (simp add: example_log_def)
  have n: "0 < batch_count (length ?fxs)"
    by (simp add: N batch_count_def ELEVATION_CHUNK_SIZE_def)
  have bad: "\<not> readable (response_to (fetch_500_at 0) ''srv'' ?fxs 0)"
    by (simp add: response_to_def fetch_500_at_def readable_def)
  have "error_of (response_to (fetch_500_at 0) ''srv'' ?fxs 0) = ServerReplies 500"
    by (simp add: response_to_def fetch_500_at_def error_of_def ok_def)
  moreover have "batch ?fxs 0 = take 100 ?fxs"
    by (simp add: batch_def ELEVATION_CHUNK_SIZE_def)
  ultimately have g2: "getGroundElevations (fetch_500_at 0) ''srv'' (example_log 150) =
       (Inl (ServerReplies 500), [request_url ''srv'' (take 100 ?fxs)])"
    using getGroundElevations_throws [OF n bad] by (simp add: request_urls_def)
  have c2: "\<lceil>real (length ?fxs) / 100\<rceil> = 2"
    by (simp add: N)
  from s1 c1 g1 one g2 c2 show ?thesis by simp
qed

text \<open>
  C3. Every row of the \<open>k\<close>-th chunk, the fixes \<open>60 k\<close> up to \<open>min (60 (k + 1)) N\<close>, carries the
  text of the \<open>xc\<close> column (route label and net distance) and the average speed that the
  solver loop gave for the prefix ending with that chunk: the same for all rows of the
  chunk, and not the values of a later iteration.
\<close>

theorem chunk_rows_share_score:
  assumes "igc_fixes igc \<noteq> []"
    and "\<forall>k<batch_count (length (igc_fixes igc)).
           readable (response_to fetch server (igc_fixes igc) k)"
    and "solver_converges solver igc"
  shows "\<exists>out rows. processData fetch solver server igc = Some out \<and> returned out = Inr rows \<and>
           length rows = length (igc_fixes igc) \<and>
           (\<forall>k i. k * CHUNK_SIZE \<le> i \<and> i < min ((k + 1) * CHUNK_SIZE) (length (igc_fixes igc)) \<longrightarrow>
              chunk_score solver igc k = Some (Inr (xc (rows ! i), avgSpeed (rows ! i)))) \<and>
           (\<forall>k i j. k * CHUNK_SIZE \<le> i \<and> i < min ((k + 1) * CHUNK_SIZE) (length (igc_fixes igc)) \<and>
                    k * CHUNK_SIZE \<le> j \<and> j < min ((k + 1) * CHUNK_SIZE) (length (igc_fixes igc)) \<longrightarrow>
              xc (rows ! i) = xc (rows ! j) \<and> avgSpeed (rows ! i) = avgSpeed (rows ! j))"
proof -
  let ?N = "length (igc_fixes igc)"
  from solver_converges_scores [OF assms(3)] obtain S where
    S: "\<forall>k<chunk_count ?N. chunk_score solver igc k = Some (Inr (S k))"
    by blast
  from processData_scored [OF assms(1,2) S] obtain rows where
    run: "processData fetch solver server igc =
       Some \<lparr>returned = Inr rows, igc_after = igc,
             requests = request_urls server (igc_fixes igc) (batch_count ?N),
             solver_inputs = map (prefix_log igc) [0..<chunk_count ?N]\<rparr>"
    and len: "length rows = ?N"
    and row: "\<forall>i<?N. rows ! i =
               \<lparr>row_time = time (igc_fixes igc ! i), gpsAlt = gpsAltitude (igc_fixes igc ! i),
                groundElev = index_opt (lookup_result fetch server (igc_fixes igc)) i,
                xc = fst (S (i div CHUNK_SIZE)), avgSpeed = snd (S (i div CHUNK_SIZE))\<rparr>"
    by blast
  have score: "chunk_score solver igc k = Some (Inr (xc (rows ! i), avgSpeed (rows ! i)))"
    if "k * CHUNK_SIZE \<le> i" and "i < min ((k + 1) * CHUNK_SIZE) ?N" for k i
  proof -
    from that have i: "i < ?N" and i': "i < (k + 1) * CHUNK_SIZE"
      by simp_all
    from that(1) i' have k: "i div CHUNK_SIZE = k"
      by (rule chunk_index)
    from that(1) i have "k * CHUNK_SIZE < ?N"
      by (rule le_less_trans)
    then have "k < chunk_count ?N"
      by (simp add: chunk_count_less)
    with S have "chunk_score solver igc k = Some (Inr (S k))" by simp
    with row i k show ?thesis by simp
  qed
  have same: "xc (rows ! i) = xc (rows ! j) \<and> avgSpeed (rows ! i) = avgSpeed (rows ! j)"
    if "k * CHUNK_SIZE \<le> i" and "i < min ((k + 1) * CHUNK_SIZE) ?N"
      and "k * CHUNK_SIZE \<le> j" and "j < min ((k + 1) * CHUNK_SIZE) ?N" for k i j
    using score [OF that(1,2)] score [OF that(3,4)] by simp
  define out where "out = \<lparr>returned = Inr rows, igc_after = igc,
             requests = request_urls server (igc_fixes igc) (batch_count ?N),
             solver_inputs = map (prefix_log igc) [0..<chunk_count ?N]\<rparr>"
  have a: "processData fetch solver server igc = Some out" "returned out = Inr rows"
    by (simp_all add: out_def run)
  have b: "\<forall>k i. k * CHUNK_SIZE \<le> i \<and> i < min ((k + 1) * CHUNK_SIZE) ?N \<longrightarrow>
              chunk_score solver igc k = Some (Inr (xc (rows ! i), avgSpeed (rows ! i)))"
    using score by blast
  have c: "\<forall>k i j. k * CHUNK_SIZE \<le> i \<and> i < min ((k + 1) * CHUNK_SIZE) ?N \<and>
                    k * CHUNK_SIZE \<le> j \<and> j < min ((k + 1) * CHUNK_SIZE) ?N \<longrightarrow>
              xc (rows ! i) = xc (rows ! j) \<and> avgSpeed (rows ! i) = avgSpeed (rows ! j)"
    using same by blast
  from a len b c show ?thesis by blast
qed

theorem chunk_rows_share_score_witness:
  "\<exists>out rows. processData (fetch_ok 100) example_solver ''srv'' (example_log 150) = Some out \<and>
     returned out = Inr rows \<and> length rows = 150 \<and>
     xc (rows ! 60) = ''flat 8 km'' \<and> avgSpeed (rows ! 60) = Finite (10 / (119 / 3600)) \<and>
     xc (rows ! 119) = ''flat 8 km'' \<and> avgSpeed (rows ! 119) = Finite (10 / (119 / 3600))"
proof -
  have ne: "igc_fixes (example_log 150) \<noteq> []"
    by (simp add: example_log_def)
  have rd: "\<forall>k<batch_count (length (igc_fixes (example_log 150))).
      readable (response_to (fetch_ok 100) ''srv'' (igc_fixes (example_log 150)) k)"
    by (simp add: fetch_ok_reports_success reports_success_readable)
  have sc: "chunk_score example_solver (example_log 150) 1 =
      Some (Inr (''flat 8 km'', Finite (10 / (119 / 3600))))"
    by (simp add: example_chunk_score example_log_def chunk_last_def CHUNK_SIZE_def fix_at_def
        divide_number_def)
  from chunk_rows_share_score [OF ne rd example_solver_converges] obtain out rows where
    run: "processData (fetch_ok 100) example_solver ''srv'' (example_log 150) = Some out"
      "returned out = Inr rows" "length rows = length (igc_fixes (example_log 150))"
    and score: "\<And>k i. k * CHUNK_SIZE \<le> i \<and>
        i < min ((k + 1) * CHUNK_SIZE) (length (igc_fixes (example_log 150))) \<Longrightarrow>
        chunk_score example_solver (example_log 150) k = Some (Inr (xc (rows ! i), avgSpeed (rows ! i)))"
    by blast
  have "chunk_score example_solver (example_log 150) 1 = Some (Inr (xc (rows ! 60), avgSpeed (rows ! 60)))"
    by (rule score) (simp add: CHUNK_SIZE_def example_log_def)
  moreover have "chunk_score example_solver (example_log 150) 1 = Some (Inr (xc (rows ! 119), avgSpeed (rows ! 119)))"
    by (rule score) (simp add: CHUNK_SIZE_def example_log_def)
  ultimately show ?thesis using run sc by (auto simp: example_log_def)
qed

text \<open>
  C4, as amended. The average speed of the rows of the \<open>k\<close>-th chunk is the distance of the
  first optimal candidate for the prefix ending with the chunk, without the penalty taken
  off, divided by the hours between the first fix of the track and the last fix of the
  chunk; where the two time stamps are equal the quotient is an infinity or not-a-number.
\<close>

theorem average_speed_of_chunk:
  assumes "igc_fixes igc \<noteq> []"
    and "\<forall>k<batch_count (length (igc_fixes igc)).
           readable (response_to fetch server (igc_fixes igc) k)"
    and "solver_converges solver igc"
  shows "\<exists>out rows. processData fetch solver server igc = Some out \<and> returned out = Inr rows \<and>
           length rows = length (igc_fixes igc) \<and>
           (\<forall>k i. k * CHUNK_SIZE \<le> i \<and> i < min ((k + 1) * CHUNK_SIZE) (length (igc_fixes igc)) \<longrightarrow>
              (\<exists>c info T.
                 first_optimal (solver (igc\<lparr>igc_fixes := take ((k + 1) * CHUNK_SIZE) (igc_fixes igc)\<rparr>)) c \<and>
                 scoreInfo c = Some info \<and>
                 T = timestamp (igc_fixes igc ! (min ((k + 1) * CHUNK_SIZE) (length (igc_fixes igc)) - 1))
                     - timestamp (igc_fixes igc ! 0) \<and>
                 avgSpeed (rows ! i) = divide_number (distance info) (T / 3600000) \<and>
                 (T \<noteq> 0 \<longrightarrow> avgSpeed (rows ! i) = Finite (distance info / (T / 3600000)))))"
proof -
  let ?N = "length (igc_fixes igc)"
  from solver_converges_scores [OF assms(3)] obtain S where
    S: "\<forall>k<chunk_count ?N.
           chunk_score solver igc k = Some (Inr (S k)) \<and>
           (\<exists>c info. first_optimal (solver (prefix_log igc k)) c \<and> scoreInfo c = Some info \<and>
              S k = (xc_text c info,
                     divide_number (distance info)
                       ((timestamp (igc_fixes igc ! chunk_last ?N k)
                         - timestamp (igc_fixes igc ! 0)) / 3600000)))"
    by blast
  then have S': "\<forall>k<chunk_count ?N. chunk_score solver igc k = Some (Inr (S k))"
    by blast
  from processData_scored [OF assms(1,2) S'] obtain rows where
    run: "processData fetch solver server igc =
       Some \<lparr>returned = Inr rows, igc_after = igc,
             requests = request_urls server (igc_fixes igc) (batch_count ?N),
             solver_inputs = map (prefix_log igc) [0..<chunk_count ?N]\<rparr>"
    and len: "length rows = ?N"
    and row: "\<forall>i<?N. rows ! i =
               \<lparr>row_time = time (igc_fixes igc ! i), gpsAlt = gpsAltitude (igc_fixes igc ! i),
                groundElev = index_opt (lookup_result fetch server (igc_fixes igc)) i,
                xc = fst (S (i div CHUNK_SIZE)), avgSpeed = snd (S (i div CHUNK_SIZE))\<rparr>"
    by blast
  have speed: "\<exists>c info T.
                 first_optimal (solver (igc\<lparr>igc_fixes := take ((k + 1) * CHUNK_SIZE) (igc_fixes igc)\<rparr>)) c \<and>
                 scoreInfo c = Some info \<and>
                 T = timestamp (igc_fixes igc ! (min ((k + 1) * CHUNK_SIZE) ?N - 1))
                     - timestamp (igc_fixes igc ! 0) \<and>
                 avgSpeed (rows ! i) = divide_number (distance info) (T / 3600000) \<and>
                 (T \<noteq> 0 \<longrightarrow> avgSpeed (rows ! i) = Finite (distance info / (T / 3600000)))"
    if "k * CHUNK_SIZE \<le> i" and "i < min ((k + 1) * CHUNK_SIZE) ?N" for k i
  proof -
    from that have i: "i < ?N" and i': "i < (k + 1) * CHUNK_SIZE"
      by simp_all
    from that(1) i' have k: "i div CHUNK_SIZE = k"
      by (rule chunk_index)
    from that(1) i have "k * CHUNK_SIZE < ?N"
      by (rule le_less_trans)
    then have "k < chunk_count ?N"
      by (simp add: chunk_count_less)
    with S obtain c info where c: "first_optimal (solver (prefix_log igc k)) c"
        "scoreInfo c = Some info"
        "S k = (xc_text c info,
                divide_number (distance info)
                  ((timestamp (igc_fixes igc ! chunk_last ?N k)
                    - timestamp (igc_fixes igc ! 0)) / 3600000))"
      by blast
    define T where "T = timestamp (igc_fixes igc ! (min ((k + 1) * CHUNK_SIZE) ?N - 1))
                     - timestamp (igc_fixes igc ! 0)"
    from row i k c(3) have e: "avgSpeed (rows ! i) = divide_number (distance info) (T / 3600000)"
      by (simp add: chunk_last_def T_def)
    then have f: "T \<noteq> 0 \<longrightarrow> avgSpeed (rows ! i) = Finite (distance info / (T / 3600000))"
      by (simp add: divide_number_def)
    have p: "first_optimal (solver (igc\<lparr>igc_fixes := take ((k + 1) * CHUNK_SIZE) (igc_fixes igc)\<rparr>)) c"
      using c(1) by (simp add: prefix_log_def)
    from p c(2) T_def e f show ?thesis by blast
  qed
  define out where "out = \<lparr>returned = Inr rows, igc_after = igc,
             requests = request_urls server (igc_fixes igc) (batch_count ?N),
             solver_inputs = map (prefix_log igc) [0..<chunk_count ?N]\<rparr>"
  have a: "processData fetch solver server igc = Some out" "returned out = Inr rows"
    by (simp_all add: out_def run)
  from a len speed show ?thesis by blast
qed

theorem average_speed_of_chunk_witness:
  "\<exists>out rows. processData (fetch_ok 100) example_solver ''srv'' (example_log 150) = Some out \<and>
     returned out = Inr rows \<and> length rows = 150 \<and>
     avgSpeed (rows ! 60) = Finite (10 / ((119000 - 0) / 3600000))"
proof -
  have ne: "igc_fixes (example_log 150) \<noteq> []"
    by (simp add: example_log_def)
  have rd: "\<forall>k<batch_count (length (igc_fixes (example_log 150))).
      readable (response_to (fetch_ok 100) ''srv'' (igc_fixes (example_log 150)) k)"
    by (simp add: fetch_ok_reports_success reports_success_readable)
  from average_speed_of_chunk [OF ne rd example_solver_converges] obtain out rows where
    run: "processData (fetch_ok 100) example_solver ''srv'' (example_log 150) = Some out"
      "returned out = Inr rows" "length rows = length (igc_fixes (example_log 150))"
    and speed: "\<And>k i. k * CHUNK_SIZE \<le> i \<and>
        i < min ((k + 1) * CHUNK_SIZE) (length (igc_fixes (example_log 150))) \<Longrightarrow>
        \<exists>c info T.
          first_optimal (example_solver (example_log 150\<lparr>igc_fixes :=
             take ((k + 1) * CHUNK_SIZE) (igc_fixes (example_log 150))\<rparr>)) c \<and>
          scoreInfo c = Some info \<and>
          T = timestamp (igc_fixes (example_log 150) !
                 (min ((k + 1) * CHUNK_SIZE) (length (igc_fixes (example_log 150))) - 1))
              - timestamp (igc_fixes (example_log 150) ! 0) \<and>
          avgSpeed (rows ! i) = divide_number (distance info) (T / 3600000) \<and>
          (T \<noteq> 0 \<longrightarrow> avgSpeed (rows ! i) = Finite (distance info / (T / 3600000)))"
    by blast
  have "1 * CHUNK_SIZE \<le> 60 \<and> 60 < min ((1 + 1) * CHUNK_SIZE) (length (igc_fixes (example_log 150)))"
    by (simp add: CHUNK_SIZE_def example_log_def)
  from speed [OF this] obtain c info T where
    c: "first_optimal (example_solver (example_log 150\<lparr>igc_fixes :=
             take ((1 + 1) * CHUNK_SIZE) (igc_fixes (example_log 150))\<rparr>)) c"
      "scoreInfo c = Some info"
    and T: "T = timestamp (igc_fixes (example_log 150) !
                 (min ((1 + 1) * CHUNK_SIZE) (length (igc_fixes (example_log 150))) - 1))
              - timestamp (igc_fixes (example_log 150) ! 0)"
    and sp: "T \<noteq> 0 \<longrightarrow> avgSpeed (rows ! 60) = Finite (distance info / (T / 3600000))"
    by blast
  from c have "distance info = 10"
    by (auto dest!: example_solver_unique simp: example_solution_def)
  moreover from T have "T = 119000 - 0"
    by (simp add: CHUNK_SIZE_def example_log_def fix_at_def)
  ultimately have "avgSpeed (rows ! 60) = Finite (10 / ((119000 - 0) / 3600000))"
    using sp by simp
  with run show ?thesis by (auto simp: example_log_def)
qed

text \<open>
  C4, as stated, fails: with a distance of 10 km, a penalty of 2 km and one hour between
  the first and the last fix, the rows carry 10 km/h, and the net distance over the hours
  is 8 km/h.
\<close>

theorem average_speed_counterexample:
  "processData (fetch_ok 2) example_solver ''srv'' hour_log =
     Some \<lparr>returned =
             Inr [\<lparr>row_time = ''12:00:00'', gpsAlt = 1500, groundElev = Some 500,
                   xc = ''flat 8 km'', avgSpeed = Finite 10\<rparr>,
                  \<lparr>row_time = ''12:00:00'', gpsAlt = 1500, groundElev = Some 500,
                   xc = ''flat 8 km'', avgSpeed = Finite 10\<rparr>],
           igc_after = hour_log,
           requests = [''srv?locations=47.00000, 11.00000|47.00000, 11.00000''],
           solver_inputs = [hour_log]\<rparr>
   \<and> first_optimal (example_solver hour_log) (example_solution True)
   \<and> scoreInfo (example_solution True) = Some \<lparr>distance = 10, penalty = Some 2\<rparr>
   \<and> timestamp (igc_fixes hour_log ! 1) - timestamp (igc_fixes hour_log ! 0) = 3600000
   \<and> spec_averageSpeed \<lparr>distance = 10, penalty = Some 2\<rparr> 3600000 = 8"
proof -
  have "timestamp (igc_fixes hour_log ! 1) - timestamp (igc_fixes hour_log ! 0) = 3600000"
    by (simp add: hour_log_def fix_at_def)
  moreover have "spec_averageSpeed \<lparr>distance = 10, penalty = Some 2\<rparr> 3600000 = 8"
    by (simp add: spec_averageSpeed_def)
  moreover have "scoreInfo (example_solution True) = Some \<lparr>distance = 10, penalty = Some 2\<rparr>"
    by (simp add: example_solution_def)
  ultimately show ?thesis
    using hour_run example_solver_first_optimal by simp
qed

text \<open>
  C5. When the response to one batch has status 200 to 299 and a status field that does
  not start with OK, while the other batches are answered with one result for each
  coordinate, the lookup does not throw and takes no elevation from that batch. The
  result is shorter than the input; the elevations before the batch are in place, and
  from the first fix of the batch on the position \<open>p\<close> holds the elevation of the fix
  \<open>p + 100\<close>, or nothing where there is no such fix.
\<close>

theorem bad_status_batch_misaligns:
  assumes "\<forall>j<batch_count (length (igc_fixes igc)).
             readable (response_to fetch server (igc_fixes igc) j)"
    and "k < batch_count (length (igc_fixes igc))"
    and "\<not> reports_success (response_to fetch server (igc_fixes igc) k)"
    and "\<forall>j<batch_count (length (igc_fixes igc)). j \<noteq> k \<longrightarrow>
           reports_success (response_to fetch server (igc_fixes igc) j) \<and>
           length (elevations_in (response_to fetch server (igc_fixes igc) j))
             = length (take 100 (drop (j * 100) (igc_fixes igc)))"
  shows "\<exists>els reqs. getGroundElevations fetch server igc = (Inr els, reqs) \<and>
           contribution (response_to fetch server (igc_fixes igc) k) = [] \<and>
           length els = length (igc_fixes igc) - length (take 100 (drop (k * 100) (igc_fixes igc))) \<and>
           length els < length (igc_fixes igc) \<and>
           (\<forall>p<k * 100.
              index_opt els p =
                Some (elevations_in (response_to fetch server (igc_fixes igc) (p div 100)) ! (p mod 100))) \<and>
           (\<forall>p. k * 100 \<le> p \<longrightarrow>
              index_opt els p =
                (if p + 100 < length (igc_fixes igc)
                 then Some (elevations_in (response_to fetch server (igc_fixes igc) ((p + 100) div 100))
                              ! ((p + 100) mod 100))
                 else None))"
proof -
  let ?fxs = "igc_fixes igc"
  let ?N = "length ?fxs"
  let ?e = "\<lambda>q. elevations_in (response_to fetch server ?fxs (q div 100)) ! (q mod 100)"
  define b where "b = length (batch ?fxs k)"
  have bt: "batch ?fxs j = take 100 (drop (j * 100) ?fxs)" for j
    by (simp add: batch_def ELEVATION_CHUNK_SIZE_def)
  from assms(2) have kN: "k * 100 < ?N"
    by (simp add: batch_count_less ELEVATION_CHUNK_SIZE_def)
  have b: "b = min 100 (?N - k * 100)"
    by (simp add: b_def length_batch ELEVATION_CHUNK_SIZE_def)
  with kN have bpos: "0 < b" and bN: "k * 100 + b \<le> ?N"
    by simp_all
  from assms(4) have others: "\<forall>j<batch_count ?N. j \<noteq> k \<longrightarrow>
        reports_success (response_to fetch server ?fxs j) \<and>
        length (elevations_in (response_to fetch server ?fxs j)) = length (batch ?fxs j)"
    unfolding bt .
  from lookup_result_one_bad [OF assms(2,3) others] obtain F where
    F: "length F = ?N"
      "\<forall>p<?N. p div 100 \<noteq> k \<longrightarrow> F ! p = ?e p"
      "lookup_result fetch server ?fxs = take (k * 100) F @ drop (k * 100 + b) F"
    unfolding ELEVATION_CHUNK_SIZE_def b_def by blast
  define els where "els = lookup_result fetch server ?fxs"
  define reqs where "reqs = request_urls server ?fxs (batch_count ?N)"
  have 1: "getGroundElevations fetch server igc = (Inr els, reqs)"
    unfolding els_def reqs_def using assms(1) by (rule getGroundElevations_returns)
  have 2: "contribution (response_to fetch server ?fxs k) = []"
    using assms(3) by (simp add: contribution_def)
  have els: "els = take (k * 100) F @ drop (k * 100 + b) F"
    unfolding els_def by (rule F(3))
  have len: "length els = ?N - b"
    using F(1) kN bN by (simp add: els)
  have 3: "length els = ?N - length (take 100 (drop (k * 100) ?fxs))"
    using len unfolding b_def bt .
  have 4: "length els < ?N"
    using len bpos kN by simp
  have 5: "index_opt els p = Some (?e p)" if "p < k * 100" for p
  proof -
    from that kN have p: "p < ?N" by simp
    from that have "p div 100 < k"
      by (simp add: less_mult_imp_div_less)
    with F(2) p have "F ! p = ?e p" by simp
    moreover from that have "els ! p = F ! p"
      using F(1) kN by (simp add: els nth_append)
    moreover from that have "p < length els"
      using len bN by simp
    ultimately show ?thesis by (simp add: index_opt_def)
  qed
  have 6: "index_opt els p = (if p + 100 < ?N then Some (?e (p + 100)) else None)"
    if "k * 100 \<le> p" for p
  proof (cases "p + 100 < ?N")
    case True
    with that have full: "b = 100" by (simp add: b)
    from that have "Suc k \<le> (p + 100) div 100"
      by (simp add: less_eq_div_iff_mult_less_eq)
    then have "(p + 100) div 100 \<noteq> k"
      by simp
    with F(2) True have "F ! (p + 100) = ?e (p + 100)" by simp
    moreover from that True have "els ! p = F ! (p + 100)"
      using F(1) kN by (simp add: els nth_append full add.commute)
    moreover from True have "p < length els"
      using len full by simp
    ultimately show ?thesis using True by (simp add: index_opt_def)
  next
    case False
    with that have "length els \<le> p"
      using len b by (simp add: min_def split: if_splits)
    with False show ?thesis by (simp add: index_opt_def)
  qed
  from 5 have before: "\<forall>p<k * 100. index_opt els p = Some (?e p)" by blast
  from 6 have after: "\<forall>p. k * 100 \<le> p \<longrightarrow>
      index_opt els p = (if p + 100 < ?N then Some (?e (p + 100)) else None)" by blast
  show ?thesis
    by (intro exI [of _ els] exI [of _ reqs] conjI 1 2 3 4 before after)
qed

theorem bad_status_batch_misaligns_witness:
  "\<exists>els reqs. getGroundElevations (fetch_invalid_at 1 2 50) ''srv'' (example_log 250) = (Inr els, reqs) \<and>
     length els = 150 \<and>
     index_opt els 20 = Some 1000 \<and> index_opt els 120 = Some 1002 \<and> index_opt els 150 = None"
proof -
  let ?F = "fetch_invalid_at 1 2 50"
  let ?fxs = "igc_fixes (example_log 250)"
  have N: "length ?fxs = 250"
    by (simp add: example_log_def)
  have n: "batch_count (length ?fxs) = 3"
    by (simp add: N batch_count_def ELEVATION_CHUNK_SIZE_def)
  have rd: "\<forall>j<batch_count (length ?fxs). readable (response_to ?F ''srv'' ?fxs j)"
    by (simp add: response_to_def fetch_invalid_at_def readable_def ok_def response_200_def)
  have k: "1 < batch_count (length ?fxs)"
    by (simp add: n)
  have bad: "\<not> reports_success (response_to ?F ''srv'' ?fxs 1)"
    by (simp add: response_to_def fetch_invalid_at_def reports_success_def response_200_def
        startsWith_def)
  have others: "\<forall>j<batch_count (length ?fxs). j \<noteq> 1 \<longrightarrow>
           reports_success (response_to ?F ''srv'' ?fxs j) \<and>
           length (elevations_in (response_to ?F ''srv'' ?fxs j))
             = length (take 100 (drop (j * 100) ?fxs))"
    unfolding n
    by (auto simp: response_to_def fetch_invalid_at_def N reports_success_def ok_def
        startsWith_def elevations_in_def)
  from bad_status_batch_misaligns [OF rd k bad others] obtain els reqs where
    run: "getGroundElevations ?F ''srv'' (example_log 250) = (Inr els, reqs)"
    and len: "length els = length ?fxs - length (take 100 (drop (1 * 100) ?fxs))"
    and before: "\<forall>p<1 * 100. index_opt els p =
        Some (elevations_in (response_to ?F ''srv'' ?fxs (p div 100)) ! (p mod 100))"
    and after: "\<forall>p. 1 * 100 \<le> p \<longrightarrow> index_opt els p =
        (if p + 100 < length ?fxs
         then Some (elevations_in (response_to ?F ''srv'' ?fxs ((p + 100) div 100)) ! ((p + 100) mod 100))
         else None)"
    by blast
  from len have "length els = 150"
    by (simp add: N)
  moreover from before have "index_opt els 20 = Some 1000"
    by (simp add: response_to_def fetch_invalid_at_def elevations_in_def example_row_def)
  moreover from after have "index_opt els 120 = Some 1002"
    by (simp add: N response_to_def fetch_invalid_at_def elevations_in_def example_row_def)
  moreover from after have "index_opt els 150 = None"
    by (simp add: N)
  ultimately show ?thesis using run by blast
qed

text \<open>
  C6. When the response to some batch of the lookup has a status outside 200 to 299, the
  lookup throws, \<^const>\<open>run\<close> ends with that error and the file system is as it was: no
  output file is written. The error is that of the first response that cannot be read,
  the status of the failing batch when the batches before it were read. In any run, the
  file system changes only when \<^const>\<open>processData\<close> has returned its rows.
\<close>

theorem http_failure_aborts_run:
  assumes "k < batch_count (length (igc_fixes igc))"
    and "\<not> ok (response_to (env_fetch env) ELEVATION_SERVER_URL (igc_fixes igc) k)"
    and "inputPath \<noteq> []" and "env_realpath env inputPath = Some sourceIgc"
    and "files sourceIgc = Some igcString" and "env_parse env igcString = Some igc"
  shows "\<exists>e. fst (getGroundElevations (env_fetch env) ELEVATION_SERVER_URL igc) = Inl e \<and>
           run env inputPath files = Some (Inl e, files) \<and>
           ((\<forall>j<k. readable (response_to (env_fetch env) ELEVATION_SERVER_URL (igc_fixes igc) j)) \<longrightarrow>
              e = ServerReplies
                    (http_status (response_to (env_fetch env) ELEVATION_SERVER_URL (igc_fixes igc) k))) \<and>
           (\<forall>path fs r fs'. run env path fs = Some (r, fs') \<and> fs' \<noteq> fs \<longrightarrow>
              (\<exists>src text igc' out rows.
                 env_realpath env path = Some src \<and> fs src = Some text \<and>
                 env_parse env text = Some igc' \<and>
                 processData (env_fetch env) (env_solver env) ELEVATION_SERVER_URL igc' = Some out \<and>
                 returned out = Inr rows))"
proof -
  let ?resp = "response_to (env_fetch env) ELEVATION_SERVER_URL (igc_fixes igc)"
  from assms(2) have "\<not> readable (?resp k)"
    by (simp add: readable_def)
  from getGroundElevations_unreadable [OF assms(1) this] obtain m where
    m: "m \<le> k" "\<not> readable (?resp m)" "\<forall>j<m. readable (?resp j)"
    and lookup: "getGroundElevations (env_fetch env) ELEVATION_SERVER_URL igc =
      (Inl (error_of (?resp m)), request_urls ELEVATION_SERVER_URL (igc_fixes igc) (Suc m))"
    by blast
  define e where "e = error_of (?resp m)"
  have a: "fst (getGroundElevations (env_fetch env) ELEVATION_SERVER_URL igc) = Inl e"
    using lookup by (simp add: e_def)
  have b: "run env inputPath files = Some (Inl e, files)"
    using assms(3-6) processData_lookup_throws [OF lookup, of "env_solver env"]
    by (simp add: run_def e_def)
  have c: "e = ServerReplies (http_status (?resp k))" if "\<forall>j<k. readable (?resp j)"
  proof -
    from that m(1,2) have "m = k"
      by (metis le_neq_implies_less)
    with assms(2) show ?thesis by (simp add: e_def error_of_def)
  qed
  have d: "\<forall>path fs r fs'. run env path fs = Some (r, fs') \<and> fs' \<noteq> fs \<longrightarrow>
              (\<exists>src text igc' out rows.
                 env_realpath env path = Some src \<and> fs src = Some text \<and>
                 env_parse env text = Some igc' \<and>
                 processData (env_fetch env) (env_solver env) ELEVATION_SERVER_URL igc' = Some out \<and>
                 returned out = Inr rows)"
    using run_writes_after_processData by blast
  from c have c': "(\<forall>j<k. readable (?resp j)) \<longrightarrow> e = ServerReplies (http_status (?resp k))"
    by blast
  show ?thesis
    by (intro exI [of _ e] conjI a b c' d)
qed

theorem http_failure_aborts_run_witness:
  "run (example_env (fetch_500_at 1) 150) ''flight.igc'' [''flight.igc'' \<mapsto> ''B''] =
   Some (Inl (ServerReplies 500), [''flight.igc'' \<mapsto> ''B''])"
proof -
  let ?env = "example_env (fetch_500_at 1) 150"
  let ?files = "[''flight.igc'' \<mapsto> ''B'']"
  have k: "1 < batch_count (length (igc_fixes (example_log 150)))"
    by (simp add: batch_count_def example_log_def ELEVATION_CHUNK_SIZE_def)
  have bad: "\<not> ok (response_to (env_fetch ?env) ELEVATION_SERVER_URL (igc_fixes (example_log 150)) 1)"
    by (simp add: example_env_def response_to_def fetch_500_at_def ok_def)
  have p: "''flight.igc'' \<noteq> []" "env_realpath ?env ''flight.igc'' = Some ''flight.igc''"
    "?files ''flight.igc'' = Some ''B''" "env_parse ?env ''B'' = Some (example_log 150)"
    by (simp_all add: example_env_def)
  have rd: "\<forall>j<1. readable (response_to (env_fetch ?env) ELEVATION_SERVER_URL (igc_fixes (example_log 150)) j)"
    by (simp add: example_env_def response_to_def fetch_500_at_def readable_def ok_def response_200_def)
  have st: "http_status (response_to (env_fetch ?env) ELEVATION_SERVER_URL (igc_fixes (example_log 150)) 1) = 500"
    by (simp add: example_env_def response_to_def fetch_500_at_def)
  from http_failure_aborts_run
         [where env = ?env and files = ?files and k = 1 and igc = "example_log 150"
            and inputPath = "''flight.igc''" and sourceIgc = "''flight.igc''" and igcString = "''B''",
          OF k bad p]
       rd st
  show ?thesis
    by auto
qed

text \<open>
  C7. For a track without fixes \<^const>\<open>processData\<close> returns no rows, and it has requested
  nothing from the elevation server and created no solver.
\<close>

theorem processData_empty_track:
  assumes "igc_fixes igc = []"
  shows "processData fetch solver server igc =
         Some \<lparr>returned = Inr [], igc_after = igc, requests = [], solver_inputs = []\<rparr>"
  using assms by (simp add: processData_def getGroundElevations_empty)

theorem processData_empty_track_witness:
  "processData (fetch_500_at 0) example_solver ''srv'' (example_log 0) =
   Some \<lparr>returned = Inr [], igc_after = example_log 0, requests = [], solver_inputs = []\<rparr>"
proof -
  have "igc_fixes (example_log 0) = []"
    by (simp add: example_log_def)
  then show ?thesis by (rule processData_empty_track)
qed

text \<open>
  C8, as amended. The query of a batch is, for each fix, the latitude rounded to 5 decimal
  digits, a comma and a space, and the longitude rounded to 5 decimal digits; the pairs are
  joined by a bar.
\<close>

theorem locations_of_format:
  "locations_of chunk =
     join ''|'' (map (\<lambda>t. rounded 5 (latitude t) @ '', '' @ rounded 5 (longitude t)) chunk)"
  by (simp add: locations_of_def toFixed_rounded)

text \<open>
  C8, as stated, fails: the query for a fix at 48.60333 north, 11.33333 west has a space
  after the comma.
\<close>

theorem locations_of_counterexample:
  "locations_of [scenario_fix, fix_at 0] = ''48.60333, -11.33333|47.00000, 11.00000''
   \<and> spec_locations [scenario_fix, fix_at 0] = ''48.60333,-11.33333|47.00000,11.00000''"
proof -
  have a: "toFixed 5 (latitude scenario_fix) = ''48.60333''"
    by (simp add: scenario_fix_def toFixed_eval)
  have b: "toFixed 5 (longitude scenario_fix) = ''-11.33333''"
    by (simp add: scenario_fix_def toFixed_eval)
  have c: "toFixed 5 (latitude (fix_at 0)) = ''47.00000''"
    by (simp add: fix_at_def toFixed_47)
  have d: "toFixed 5 (longitude (fix_at 0)) = ''11.00000''"
    by (simp add: fix_at_def toFixed_11)
  have "locations_of [scenario_fix, fix_at 0] = ''48.60333, -11.33333|47.00000, 11.00000''"
    by (simp add: locations_of_def a b c d)
  moreover have "spec_locations [scenario_fix, fix_at 0] = ''48.60333,-11.33333|47.00000,11.00000''"
    by (simp add: spec_locations_def toFixed_rounded [symmetric] a b c d)
  ultimately show ?thesis by simp
qed

text \<open>
  C9, as amended. For a track of 150 fixes \<^const>\<open>processData\<close> creates the solver three
  times, on the prefixes of 60, 120 and 150 fixes, and the lookup sends two requests, for
  the first 100 coordinates and for the other 50.
\<close>

theorem scenario_150_fixes:
  assumes "length (igc_fixes igc) = 150"
    and "\<forall>k<batch_count (length (igc_fixes igc)).
           readable (response_to fetch server (igc_fixes igc) k)"
    and "solver_converges solver igc"
  shows "\<exists>out rows. processData fetch solver server igc = Some out \<and> returned out = Inr rows \<and>
           solver_inputs out =
             [igc\<lparr>igc_fixes := take 60 (igc_fixes igc)\<rparr>,
              igc\<lparr>igc_fixes := take 120 (igc_fixes igc)\<rparr>,
              igc] \<and>
           map (length \<circ> igc_fixes) (solver_inputs out) = [60, 120, 150] \<and>
           requests out =
             [request_url server (take 100 (igc_fixes igc)),
              request_url server (drop 100 (igc_fixes igc))] \<and>
           length (take 100 (igc_fixes igc)) = 100 \<and> length (drop 100 (igc_fixes igc)) = 50"
proof -
  from assms(1) have ne: "igc_fixes igc \<noteq> []" by auto
  from solver_converges_scores [OF assms(3)] obtain S where
    "\<forall>k<chunk_count (length (igc_fixes igc)). chunk_score solver igc k = Some (Inr (S k))"
    by blast
  from processData_scored [OF ne assms(2) this] obtain rows where
    run: "processData fetch solver server igc =
       Some \<lparr>returned = Inr rows, igc_after = igc,
             requests = request_urls server (igc_fixes igc) (batch_count (length (igc_fixes igc))),
             solver_inputs = map (prefix_log igc) [0..<chunk_count (length (igc_fixes igc))]\<rparr>"
    by blast
  define out where "out = \<lparr>returned = Inr rows, igc_after = igc,
       requests = [request_url server (take 100 (igc_fixes igc)),
                   request_url server (drop 100 (igc_fixes igc))],
       solver_inputs = [igc\<lparr>igc_fixes := take 60 (igc_fixes igc)\<rparr>,
                        igc\<lparr>igc_fixes := take 120 (igc_fixes igc)\<rparr>, igc]\<rparr>"
  have a: "processData fetch solver server igc = Some out"
    using run by (simp add: out_def request_urls_150 [OF assms(1)] prefix_logs_150 [OF assms(1)])
  have b: "returned out = Inr rows"
    "solver_inputs out = [igc\<lparr>igc_fixes := take 60 (igc_fixes igc)\<rparr>,
                        igc\<lparr>igc_fixes := take 120 (igc_fixes igc)\<rparr>, igc]"
    "requests out = [request_url server (take 100 (igc_fixes igc)),
                   request_url server (drop 100 (igc_fixes igc))]"
    by (simp_all add: out_def)
  have c: "map (length \<circ> igc_fixes) (solver_inputs out) = [60, 120, 150]"
    using assms(1) by (simp add: out_def)
  have d: "length (take 100 (igc_fixes igc)) = 100" "length (drop 100 (igc_fixes igc)) = 50"
    using assms(1) by simp_all
  show ?thesis
    by (intro exI [of _ out] exI [of _ rows] conjI a b c d)
qed

theorem scenario_150_fixes_witness:
  "\<exists>out. processData (fetch_ok 100) example_solver ''srv'' (example_log 150) = Some out \<and>
     map (length \<circ> igc_fixes) (solver_inputs out) = [60, 120, 150] \<and>
     length (requests out) = 2"
proof -
  have len: "length (igc_fixes (example_log 150)) = 150"
    by (simp add: example_log_def)
  have rd: "\<forall>k<batch_count (length (igc_fixes (example_log 150))).
      readable (response_to (fetch_ok 100) ''srv'' (igc_fixes (example_log 150)) k)"
    by (simp add: fetch_ok_reports_success reports_success_readable)
  from scenario_150_fixes [OF len rd example_solver_converges] show ?thesis
    by auto
qed

text \<open>
  C9, as stated, fails: the lookup over the 150 fixes of the example log sends two
  requests, not three.
\<close>

theorem elevation_batches_150_counterexample:
  "snd (getGroundElevations (fetch_ok 100) ''srv'' (example_log 150)) =
     [request_url ''srv'' (take 100 (igc_fixes (example_log 150))),
      request_url ''srv'' (drop 100 (igc_fixes (example_log 150)))]
   \<and> length (snd (getGroundElevations (fetch_ok 100) ''srv'' (example_log 150))) = 2
   \<and> length (igc_fixes (example_log 150)) = 150"
proof -
  have len: "length (igc_fixes (example_log 150)) = 150"
    by (simp add: example_log_def)
  have rd: "\<forall>k<batch_count (length (igc_fixes (example_log 150))).
      readable (response_to (fetch_ok 100) ''srv'' (igc_fixes (example_log 150)) k)"
    by (simp add: fetch_ok_reports_success reports_success_readable)
  show ?thesis
    unfolding getGroundElevations_returns [OF rd] request_urls_150 [OF len]
    using len by simp
qed

text \<open>
  C10. \<^const>\<open>processData\<close> empties the fixes of the log and puts them back one chunk per
  iteration: the solver of the \<open>k\<close>-th iteration is created on the log with the fixes of the
  chunks \<open>0\<close> to \<open>k\<close>. When \<^const>\<open>processData\<close> returns its rows, the log is again the log
  it was given.
\<close>

theorem processData_restores_log:
  assumes "processData fetch solver server igc = Some out" and "returned out = Inr rows"
  shows "igc_after out = igc \<and>
         solver_inputs out =
           map (\<lambda>k. igc\<lparr>igc_fixes := take ((k + 1) * CHUNK_SIZE) (igc_fixes igc)\<rparr>)
               [0..<chunk_count (length (igc_fixes igc))]"
  using processData_returns_restores [OF assms] by (simp add: prefix_log_def)

theorem processData_restores_log_witness:
  "\<exists>out. processData (fetch_ok 100) example_solver ''srv'' (example_log 150) = Some out \<and>
     igc_after out = example_log 150 \<and>
     map (length \<circ> igc_fixes) (solver_inputs out) = [60, 120, 150]"
proof -
  from example_run_150 obtain rows out where
    out: "processData (fetch_ok 100) example_solver ''srv'' (example_log 150) = Some out"
      "returned out = Inr rows"
    by force
  have "chunk_count 150 = 3"
    by (simp add: chunk_count_def CHUNK_SIZE_def)
  then show ?thesis
    using processData_restores_log [OF out] out(1)
    by (simp add: example_log_def CHUNK_SIZE_def upt_0_3)
qed

end
